theory Spec2Isabelle
  imports Main "HOL-Library.Word"
begin

section \<open>JavaScript values and promises\<close>

text \<open>
  The payloads that travel between the page and the kernel.  Numbers are the integers
  the tests compare against (16, 25, 75, 100); a \<open>Uint8Array\<close> is a list of bytes; an
  object is an association list from field names to values.  Strings are ASCII.
\<close>

datatype jsval =
    JUndefined
  | JNull
  | JBool bool
  | JNum int
  | JStr string
  | JBytes "8 word list"
  | JArr "jsval list"
  | JObj "(string \<times> jsval) list"

type_synonym jsobj = "(string \<times> jsval) list"

text \<open>
  \<open>key in data\<close> and \<open>data.key\<close> for an object payload.  None of the keys the tests use
  (\<open>seed\<close>, \<open>domain\<close>, \<open>eventProgress\<close>) is inherited from \<open>Object.prototype\<close>, so \<open>in\<close> is
  membership among the object's own fields, and reading an absent field gives
  \<open>undefined\<close>.
\<close>

definition js_in :: "string \<Rightarrow> jsobj \<Rightarrow> bool" where
  "js_in k data = (map_of data k \<noteq> None)"

definition js_get :: "jsobj \<Rightarrow> string \<Rightarrow> jsval" where
  "js_get data k = (case map_of data k of Some v \<Rightarrow> v | None \<Rightarrow> JUndefined)"

text \<open>
  \<open>v.length\<close>: reading a property of \<open>undefined\<close> or \<open>null\<close> throws a \<open>TypeError\<close> (\<open>Inl\<close>);
  strings, typed arrays and arrays have a length; a number or a boolean has none
  (\<open>undefined\<close>); an object has the value of its own \<open>length\<close> field, if any.
\<close>

definition TypeError :: string where
  "TypeError = ''TypeError''"

definition js_length :: "jsval \<Rightarrow> string + jsval" where
  "js_length v =
     (case v of
        JUndefined \<Rightarrow> Inl TypeError
      | JNull \<Rightarrow> Inl TypeError
      | JBool _ \<Rightarrow> Inr JUndefined
      | JNum _ \<Rightarrow> Inr JUndefined
      | JStr s \<Rightarrow> Inr (JNum (int (length s)))
      | JBytes bs \<Rightarrow> Inr (JNum (int (length bs)))
      | JArr xs \<Rightarrow> Inr (JNum (int (length xs)))
      | JObj kv \<Rightarrow> Inr (js_get kv ''length''))"

definition js_typeof :: "jsval \<Rightarrow> string" where
  "js_typeof v =
     (case v of
        JUndefined \<Rightarrow> ''undefined''
      | JNull \<Rightarrow> ''object''
      | JBool _ \<Rightarrow> ''boolean''
      | JNum _ \<Rightarrow> ''number''
      | JStr _ \<Rightarrow> ''string''
      | JBytes _ \<Rightarrow> ''object''
      | JArr _ \<Rightarrow> ''object''
      | JObj _ \<Rightarrow> ''object'')"

text \<open>
  A promise is pending, fulfilled with a value or rejected with a reason; \<open>Pending\<close> at
  the end of a run is a promise that never settles.  \<open>resolve\<close> and \<open>reject\<close> settle a
  pending promise and do nothing to a settled one.  Reasons are strings, as the kernel
  library reports them.
\<close>

datatype ('e, 'a) settled = Pending | Fulfilled 'a | Rejected 'e

type_synonym outcome = "(string, string) settled"

definition resolve :: "'a \<Rightarrow> ('e, 'a) settled \<Rightarrow> ('e, 'a) settled" where
  "resolve v p = (case p of Pending \<Rightarrow> Fulfilled v | _ \<Rightarrow> p)"

definition reject :: "'e \<Rightarrow> ('e, 'a) settled \<Rightarrow> ('e, 'a) settled" where
  "reject e p = (case p of Pending \<Rightarrow> Rejected e | _ \<Rightarrow> p)"

text \<open>
  \<open>query.then(f).catch(g)\<close> inside the executor of \<open>new Promise\<close>: \<open>q\<close> is how \<open>query\<close>
  settles, the handlers act on the promise under construction.  A handler that throws
  (\<open>Inl\<close>) hands the thrown value to \<open>g\<close>; nothing runs while \<open>query\<close> is pending.
\<close>

definition then_catch ::
  "('e, 'a) settled \<Rightarrow> ('a \<Rightarrow> 'p \<Rightarrow> 'e + 'p) \<Rightarrow> ('e \<Rightarrow> 'p \<Rightarrow> 'p) \<Rightarrow> 'p \<Rightarrow> 'p" where
  "then_catch q f g p =
     (case q of
        Pending \<Rightarrow> p
      | Fulfilled v \<Rightarrow> (case f v p of Inl e \<Rightarrow> g e p | Inr p' \<Rightarrow> p')
      | Rejected e \<Rightarrow> g e p)"

section \<open>The kernel library, as the tests see it\<close>

text \<open>
  \<open>libkernel\<close> is imported, not part of this repository: its operations are parameters.
  Each call reads and changes the state \<open>'k\<close> of the kernel session and returns how its
  promise settles.  \<open>connectModule\<close> returns what the library does with the query, in
  order: calls of \<open>receiveUpdate\<close> and calls that settle the query promise.  What it
  does is a list of runs: a run is a stretch of the library's code that nothing
  interrupts, and the jobs queued by a promise that settles in a run start when that
  run has ended.
\<close>

datatype conn_event = ResponseUpdate jsobj | Response jsobj | ResponseErr string

record 'k libkernel =
  testMessage :: "'k \<Rightarrow> outcome \<times> 'k"
  callModule :: "string \<Rightarrow> string \<Rightarrow> jsobj \<Rightarrow> 'k \<Rightarrow> (string, jsobj) settled \<times> 'k"
  connectModule :: "string \<Rightarrow> string \<Rightarrow> jsobj \<Rightarrow> 'k \<Rightarrow> conn_event list list \<times> 'k"
  upload :: "string \<Rightarrow> 8 word list \<Rightarrow> 'k \<Rightarrow> (string, string) settled \<times> 'k"
  download :: "string \<Rightarrow> 'k \<Rightarrow> (string, 8 word list) settled \<times> 'k"
  addContextToErr :: "string \<Rightarrow> string \<Rightarrow> string"

section \<open>The page\<close>

text \<open>
  What the tests read from the browser: \<open>window.location.hostname\<close>, and the built-in
  \<open>JSON.stringify\<close>, which only ever builds the text of a failure message.
\<close>

record browser =
  hostname :: string
  JSON_stringify :: "jsval \<Rightarrow> string"

text \<open>
  \<open>window.location.origin\<close> of a page on the default port of its protocol: the
  protocol, two slashes and the host name.
\<close>

definition location_origin :: "string \<Rightarrow> browser \<Rightarrow> string" where
  "location_origin protocol B = protocol @ ''//'' @ hostname B"

text \<open>\<open>new TextEncoder().encode\<close> of an ASCII string: one byte for each character.\<close>

definition TextEncoder_encode :: "string \<Rightarrow> 8 word list" where
  "TextEncoder_encode str = map (\<lambda>c. of_nat (of_char c)) str"

text \<open>\<open>'...' + v\<close> for a value \<open>v\<close> whose \<open>typeof\<close> is \<open>string\<close>.\<close>

definition js_string :: "jsval \<Rightarrow> string" where
  "js_string v = (case v of JStr str \<Rightarrow> str | _ \<Rightarrow> [])"

text \<open>\<open>xs[i]\<close>: \<open>undefined\<close> (\<open>None\<close>) out of range.\<close>

definition js_index :: "'a list \<Rightarrow> nat \<Rightarrow> 'a option" where
  "js_index xs i = (if i < length xs then Some (xs ! i) else None)"

section \<open>The tests\<close>

subsection \<open>Module identifiers\<close>

definition kernelTestSuite :: string where
  "kernelTestSuite = ''AQCPJ9WRzMpKQHIsPo8no3XJpUydcDCjw7VJy8lG1MCZ3g''"

definition moduleDoesNotExist :: string where
  "moduleDoesNotExist = ''AQCPJ9WRzMpKQHIsPo9no3XJpUydcDCjw7VJy8lG1MCZ3g''"

definition moduleMalformed :: string where
  "moduleMalformed = ''AQCPJ9WRzMpKQHIsPo8no3XJpUydcDCjw7VJy8lG1MCZ3''"

subsection \<open>TestModuleHasSeed\<close>

definition TestModuleHasSeed :: "'k libkernel \<Rightarrow> 'k \<Rightarrow> outcome \<times> 'k" where
  "TestModuleHasSeed K s =
     (case callModule K kernelTestSuite ''viewSeed'' [] s of (q, s') \<Rightarrow>
        (then_catch q
           (\<lambda>data p.
              if \<not> js_in ''seed'' data
              then Inr (reject ''viewSeed in test module did not return a data.seed'' p)
              else (case js_length (js_get data ''seed'') of
                      Inl thrown \<Rightarrow> Inl thrown
                    | Inr len \<Rightarrow>
                        if len \<noteq> JNum 16
                        then Inr (reject
                          ''viewSeed in test module returned a seed with a non-standard length'' p)
                        else Inr (resolve
                          ''viewSeed appears to have returned a standard seed'' p)))
           (\<lambda>err p. reject err p)
           Pending, s'))"

subsection \<open>TestMissingModule and TestMalformedModule\<close>

definition TestMissingModule :: "'k libkernel \<Rightarrow> browser \<Rightarrow> 'k \<Rightarrow> outcome \<times> 'k" where
  "TestMissingModule K B s =
     (case callModule K moduleDoesNotExist ''viewSeed'' [] s of (q, s') \<Rightarrow>
        (then_catch q
           (\<lambda>data p. Inr (reject
              (''kernel is supposed to return an error:'' @ JSON_stringify B (JObj data)) p))
           (\<lambda>err p. resolve err p)
           Pending, s'))"

definition TestMalformedModule :: "'k libkernel \<Rightarrow> 'k \<Rightarrow> outcome \<times> 'k" where
  "TestMalformedModule K s =
     (case callModule K moduleMalformed ''viewSeed'' [] s of (q, s') \<Rightarrow>
        (then_catch q
           (\<lambda>data p. Inr (reject ''kernel is supposed to return an error'' p))
           (\<lambda>err p. resolve err p)
           Pending, s'))"

subsection \<open>TestModulePresentSeed\<close>

text \<open>\<open>new Uint8Array(16)\<close>: sixteen zero bytes.\<close>

definition fakeSeed :: jsval where
  "fakeSeed = JBytes (replicate 16 0)"

definition TestModulePresentSeed :: "'k libkernel \<Rightarrow> 'k \<Rightarrow> outcome \<times> 'k" where
  "TestModulePresentSeed K s =
     (case callModule K kernelTestSuite ''presentSeed'' [(''seed'', fakeSeed)] s of (q, s') \<Rightarrow>
        (then_catch q
           (\<lambda>data p. Inr (reject ''expecting an error for using a forbidden method'' p))
           (\<lambda>err p. resolve (''received expected error: '' @ err) p)
           Pending, s'))"

subsection \<open>TestMirrorDomain\<close>

definition TestMirrorDomain :: "'k libkernel \<Rightarrow> browser \<Rightarrow> 'k \<Rightarrow> outcome \<times> 'k" where
  "TestMirrorDomain K B s =
     (case callModule K kernelTestSuite ''mirrorDomain'' [] s of (q, s') \<Rightarrow>
        (then_catch q
           (\<lambda>data p.
              if \<not> js_in ''domain'' data
              then Inr (reject ''mirrorDomain did not return a domain'' p)
              else if js_typeof (js_get data ''domain'') \<noteq> ''string''
              then Inr (reject
                (''mirrorDomain returned wrong type: '' @ js_typeof (js_get data ''domain'')) p)
              else if js_get data ''domain'' \<noteq> JStr (hostname B)
              then Inr (reject
                (''wrong domain'' @ [CHR 0x0A] @ ''expected: '' @ hostname B @
                 [CHR 0x0A] @ ''got: '' @ js_string (js_get data ''domain'')) p)
              else Inr (resolve
                (''got expected domain: '' @ js_string (js_get data ''domain'')) p))
           (\<lambda>err p. reject err p)
           Pending, s'))"

subsection \<open>TestResponseUpdates\<close>









text \<open>The updates among some events, and the first of the events that is not an update.\<close>

fun updates_of :: "conn_event list \<Rightarrow> jsobj list" where
  "updates_of [] = []"
| "updates_of (ResponseUpdate data # evs) = data # updates_of evs"
| "updates_of (ev # evs) = updates_of evs"




subsection \<open>TestSecureUploadAndDownload\<close>

text \<open>
  The loop \<open>for (let i = 0; i < fileDataUp.length; i++)\<close>: \<open>True\<close> when it reaches the
  \<open>reject\<close> at some index, \<open>False\<close> when it runs to the end.
\<close>

function mismatch_from :: "8 word list \<Rightarrow> 8 word list \<Rightarrow> nat \<Rightarrow> bool" where
  "mismatch_from fileDataUp fileDataDown i =
     (if i < length fileDataUp
      then (if js_index fileDataUp i \<noteq> js_index fileDataDown i then True
            else mismatch_from fileDataUp fileDataDown (Suc i))
      else False)"
  by pat_completeness auto
termination
  by (relation "measure (\<lambda>(fileDataUp, fileDataDown, i). length fileDataUp - i)") auto

declare mismatch_from.simps [simp del]

definition check_download :: "browser \<Rightarrow> 8 word list \<Rightarrow> string \<Rightarrow> 8 word list \<Rightarrow> outcome \<Rightarrow> outcome" where
  "check_download B fileDataUp skylink fileDataDown p =
     (if length fileDataUp \<noteq> length fileDataDown
      then reject (''uploaded data and downloaded data do not match: '' @
             JSON_stringify B (JObj [(''uploaded'', JBytes fileDataUp),
                                      (''downloaded'', JBytes fileDataDown)])) p
      else if mismatch_from fileDataUp fileDataDown 0
      then reject (''uploaded data and downloaded data do not match: '' @
             JSON_stringify B (JObj [(''uploaded'', JBytes fileDataUp),
                                      (''downloaded'', JBytes fileDataDown)])) p
      else resolve skylink p)"

definition TestSecureUploadAndDownload :: "'k libkernel \<Rightarrow> browser \<Rightarrow> 'k \<Rightarrow> outcome \<times> 'k" where
  "TestSecureUploadAndDownload K B s =
     (let fileDataUp = TextEncoder_encode ''test data'' in
      case upload K ''testUpload.txt'' fileDataUp s of
        (Pending, s1) \<Rightarrow> (Pending, s1)
      | (Rejected err, s1) \<Rightarrow> (reject err Pending, s1)
      | (Fulfilled skylink, s1) \<Rightarrow>
          (case download K skylink s1 of (q, s2) \<Rightarrow>
             (then_catch q
                (\<lambda>fileDataDown p. Inr (check_download B fileDataUp skylink fileDataDown p))
                (\<lambda>err p. reject err p)
                Pending, s2)))"

text \<open>\<open>download(upload(name, bytes))\<close> in a session: how the download settles.\<close>

definition download_upload ::
  "'k libkernel \<Rightarrow> string \<Rightarrow> 8 word list \<Rightarrow> 'k \<Rightarrow> (string, 8 word list) settled" where
  "download_upload K filename bytes s =
     (case upload K filename bytes s of
        (Pending, s1) \<Rightarrow> Pending
      | (Rejected err, s1) \<Rightarrow> Rejected err
      | (Fulfilled skylink, s1) \<Rightarrow> fst (download K skylink s1))"

subsection \<open>TestMsgSpeedSequential5k\<close>

text \<open>
  \<open>sendSequentialMessages(remaining, resolve, reject)\<close>: the pair is the kernel session
  and the promise of the test.  \<open>remaining\<close> starts at 5000 and is only ever decremented
  down to 0, so it is a natural number.
\<close>

fun sendSequentialMessages :: "'k libkernel \<Rightarrow> nat \<Rightarrow> 'k \<times> outcome \<Rightarrow> 'k \<times> outcome" where
  "sendSequentialMessages K 0 (s, p) = (s, resolve ''all messages resolved'' p)"
| "sendSequentialMessages K (Suc remaining) (s, p) =
     (case testMessage K s of
        (Pending, s') \<Rightarrow> (s', p)
      | (Fulfilled x, s') \<Rightarrow> sendSequentialMessages K remaining (s', p)
      | (Rejected x, s') \<Rightarrow> (s', reject x p))"

definition TestMsgSpeedSequential5k :: "'k libkernel \<Rightarrow> 'k \<Rightarrow> outcome \<times> 'k" where
  "TestMsgSpeedSequential5k K s =
     (case sendSequentialMessages K 5000 (s, Pending) of (s', p) \<Rightarrow> (p, s'))"

text \<open>The session after \<open>n\<close> test messages, each sent in the state the one before left.\<close>

definition after_messages :: "'k libkernel \<Rightarrow> nat \<Rightarrow> 'k \<Rightarrow> 'k" where
  "after_messages K n s = ((\<lambda>s. snd (testMessage K s)) ^^ n) s"

section \<open>The scheduler\<close>

text \<open>
  The state of one \<open>TestCard\<close>: what it shows as its status, and its colour.  The status
  is the text the card writes, or, after a failure, the very value the promise of the
  test was rejected with.  The third state variable, \<open>duration\<close>, is a difference of two
  readings of the clock and plays no part in the scheduling.
\<close>

record card =
  testStatus :: jsval
  statusColor :: string

definition grey :: string where
  "grey = ''rgba(60, 60, 60, 0.6)''"

definition orange :: string where
  "orange = ''rgba(255, 165, 0, 0.6)''"

definition green :: string where
  "green = ''rgba(0, 80, 0, 0.6)''"

definition red :: string where
  "red = ''rgba(255, 0, 0, 0.6)''"

text \<open>
  A card has begun once it left the initial colour, and has a terminal outcome once it
  shows the colour of a success or of a failure.
\<close>

definition waiting :: "card \<Rightarrow> bool" where
  "waiting c = (statusColor c = grey)"

definition in_progress :: "card \<Rightarrow> bool" where
  "in_progress c = (statusColor c = orange)"

definition terminal :: "card \<Rightarrow> bool" where
  "terminal c = (statusColor c = green \<or> statusColor c = red)"

definition begun :: "card \<Rightarrow> bool" where
  "begun c = (statusColor c \<noteq> grey)"

text \<open>
  What \<open>{testStatus}\<close> inside the paragraph of a card can be: a text or a number is shown,
  \<open>undefined\<close>, \<open>null\<close> and a boolean show nothing, the items of an array or of a typed
  array are shown one by one.  Any other object, an \<open>Error\<close> among them, is refused:
  rendering throws.
\<close>

fun renderable :: "jsval \<Rightarrow> bool" where
  "renderable (JObj kv) = False"
| "renderable (JArr xs) = list_all renderable xs"
| "renderable v = True"

text \<open>
  An entry of \<open>testCardValues\<close>.  A test reads and changes the world \<open>'w\<close> it runs in (for
  the tests above, the kernel session) and returns a promise.  The promise is fulfilled
  with a value, of which the card shows the text, or rejected with any value at all.
  The test acts on the world when it is called; its promise settles in a later step,
  or never.
\<close>

type_synonym test_outcome = "(jsval, string) settled"

record 'w test_card_value =
  name :: string
  test :: "'w \<Rightarrow> test_outcome \<times> 'w"

text \<open>A test whose reasons are all texts, as a test of the page.\<close>

definition on_page :: "('w \<Rightarrow> outcome \<times> 'w) \<Rightarrow> 'w \<Rightarrow> test_outcome \<times> 'w" where
  "on_page t w =
     (case t w of
        (Pending, w') \<Rightarrow> (Pending, w')
      | (Fulfilled x, w') \<Rightarrow> (Fulfilled x, w')
      | (Rejected err, w') \<Rightarrow> (Rejected (JStr err), w'))"

text \<open>
  A promise returned by \<open>test()\<close> with its two handlers attached: the card it belongs to,
  the value of \<open>queueTurn\<close> the handlers closed over, and how the promise settles.
\<close>

record running_test =
  queueSpot :: nat
  capturedTurn :: nat
  settles :: test_outcome

text \<open>
  The page: the state variable \<open>queueTurn\<close> of \<open>App\<close>, the cards in the order of
  \<open>testCardValues\<close> (the index of a card is its \<open>queueSpot\<close>), the promises in flight,
  whether a render has been committed whose effects have not run yet (the first one,
  or one after \<open>queueTurn\<close> changed, the only dependency of the effect that changes),
  and whether the page is still mounted.
\<close>

record 'w app =
  queueTurn :: nat
  cards :: "card list"
  running :: "running_test list"
  effects_due :: bool
  mounted :: bool
  world :: 'w

definition App :: "'w test_card_value list \<Rightarrow> 'w \<Rightarrow> 'w app" where
  "App testCardValues w =
     \<lparr>queueTurn = 0,
      cards = map (\<lambda>_. \<lparr>testStatus = JStr ''test is waiting'', statusColor = grey\<rparr>)
                testCardValues,
      running = [],
      effects_due = True,
      mounted = True,
      world = w\<rparr>"

text \<open>\<open>setTestStatus\<close> and \<open>setStatusColor\<close> of the card at a position.\<close>

definition set_card :: "nat \<Rightarrow> jsval \<Rightarrow> string \<Rightarrow> 'w app \<Rightarrow> 'w app" where
  "set_card spot status color a =
     a\<lparr>cards := (cards a)[spot := \<lparr>testStatus = status, statusColor = color\<rparr>]\<rparr>"

text \<open>Setting the state to the value it has does not render again.\<close>

definition setQueueTurn :: "nat \<Rightarrow> 'w app \<Rightarrow> 'w app" where
  "setQueueTurn v a = a\<lparr>queueTurn := v, effects_due := (effects_due a \<or> v \<noteq> queueTurn a)\<rparr>"

text \<open>
  The render after a handler has set the state.  There is no error boundary: when a
  card cannot show its status, rendering throws and the whole page is unmounted,
  whether the states a handler sets are rendered together or one by one.
\<close>

definition render :: "'w app \<Rightarrow> 'w app" where
  "render a =
     (if list_all (\<lambda>c. renderable (testStatus c)) (cards a) then a else a\<lparr>mounted := False\<rparr>)"

text \<open>
  The effect of the card at position \<open>spot\<close>.  The status it writes is a text, which
  can be shown.
\<close>

definition TestCard_useEffect :: "'w test_card_value list \<Rightarrow> nat \<Rightarrow> 'w app \<Rightarrow> 'w app" where
  "TestCard_useEffect testCardValues spot a =
     (if queueTurn a = spot
      then (case test (testCardValues ! spot) (world a) of (out, w') \<Rightarrow>
              (set_card spot (JStr ''test is running'') orange a)
                \<lparr>running := running a @
                   [\<lparr>queueSpot = spot, capturedTurn = queueTurn a, settles = out\<rparr>],
                 world := w'\<rparr>)
      else a)"

text \<open>
  After a render, the effect of every card runs once, in the order of the cards.
\<close>

definition run_effects :: "'w test_card_value list \<Rightarrow> 'w app \<Rightarrow> 'w app" where
  "run_effects testCardValues a =
     fold (TestCard_useEffect testCardValues) [0..<length testCardValues]
       (a\<lparr>effects_due := False\<rparr>)"

text \<open>
  The handlers given to \<open>then\<close> and to \<open>catch\<close>.  The first writes a text that ends with
  the value; the second writes the reason as it is.
\<close>

definition test_then :: "running_test \<Rightarrow> string \<Rightarrow> 'w app \<Rightarrow> 'w app" where
  "test_then r x a =
     render (setQueueTurn (capturedTurn r + 1)
       (set_card (queueSpot r) (JStr (''test success: '' @ x)) green a))"

definition test_catch :: "running_test \<Rightarrow> jsval \<Rightarrow> 'w app \<Rightarrow> 'w app" where
  "test_catch r x a =
     render (setQueueTurn (capturedTurn r + 1) (set_card (queueSpot r) x red a))"

text \<open>
  A promise in flight settles: it leaves the list and its handler runs.  On a page
  that is no longer mounted the handler sets no state.
\<close>

definition settle :: "running_test \<Rightarrow> 'w app \<Rightarrow> 'w app" where
  "settle r a =
     (if \<not> mounted a then a\<lparr>running := remove1 r (running a)\<rparr>
      else (case settles r of
              Pending \<Rightarrow> a
            | Fulfilled x \<Rightarrow> test_then r x (a\<lparr>running := remove1 r (running a)\<rparr>)
            | Rejected x \<Rightarrow> test_catch r x (a\<lparr>running := remove1 r (running a)\<rparr>)))"

text \<open>
  What can happen next: the effects of a committed render run, on a page that is
  mounted, or any one of the promises in flight that settles does so.
\<close>

inductive step :: "'w test_card_value list \<Rightarrow> 'w app \<Rightarrow> 'w app \<Rightarrow> bool" where
  step_effects: "effects_due a \<Longrightarrow> mounted a \<Longrightarrow>
     step testCardValues a (run_effects testCardValues a)"
| step_settle: "r \<in> set (running a) \<Longrightarrow> settles r \<noteq> Pending \<Longrightarrow>
     step testCardValues a (settle r a)"

code_pred step .

text \<open>The states of the page that opens in the world \<open>w\<close>.\<close>

inductive reachable :: "'w test_card_value list \<Rightarrow> 'w \<Rightarrow> 'w app \<Rightarrow> bool" where
  reachable_App: "reachable testCardValues w (App testCardValues w)"
| reachable_step: "reachable testCardValues w a \<Longrightarrow> step testCardValues a a' \<Longrightarrow>
     reachable testCardValues w a'"

text \<open>
  The tests one after the other, in the order of the registry: the world in which the
  test at position \<open>k\<close> is called, and how its promise settles.
\<close>

fun world_at :: "'w test_card_value list \<Rightarrow> 'w \<Rightarrow> nat \<Rightarrow> 'w" where
  "world_at testCardValues w 0 = w"
| "world_at testCardValues w (Suc k) =
     snd (test (testCardValues ! k) (world_at testCardValues w k))"

definition outcome_at :: "'w test_card_value list \<Rightarrow> 'w \<Rightarrow> nat \<Rightarrow> test_outcome" where
  "outcome_at testCardValues w k = fst (test (testCardValues ! k) (world_at testCardValues w k))"

text \<open>Every test of the run settles.\<close>

definition all_settle :: "'w test_card_value list \<Rightarrow> 'w \<Rightarrow> bool" where
  "all_settle testCardValues w =
     (\<forall>k < length testCardValues. outcome_at testCardValues w k \<noteq> Pending)"

text \<open>Every reason a test of the run is rejected with can be shown.\<close>

definition reasons_renderable :: "'w test_card_value list \<Rightarrow> 'w \<Rightarrow> bool" where
  "reasons_renderable testCardValues w =
     (\<forall>k < length testCardValues. \<forall>x.
        outcome_at testCardValues w k = Rejected x \<longrightarrow> renderable x)"

text \<open>The card of a test, given how far its promise has come.\<close>

definition shown :: "test_outcome \<Rightarrow> card" where
  "shown out =
     (case out of
        Pending \<Rightarrow> \<lparr>testStatus = JStr ''test is running'', statusColor = orange\<rparr>
      | Fulfilled x \<Rightarrow> \<lparr>testStatus = JStr (''test success: '' @ x), statusColor = green\<rparr>
      | Rejected x \<Rightarrow> \<lparr>testStatus = x, statusColor = red\<rparr>)"

definition not_begun :: card where
  "not_begun = \<lparr>testStatus = JStr ''test is waiting'', statusColor = grey\<rparr>"

text \<open>The start of the test at the current turn, which is all the effects do.\<close>

definition begin_test :: "'w test_card_value list \<Rightarrow> 'w app \<Rightarrow> 'w app" where
  "begin_test testCardValues a =
     (set_card (queueTurn a) (JStr ''test is running'') orange a)
       \<lparr>running := running a @
          [\<lparr>queueSpot = queueTurn a, capturedTurn = queueTurn a,
            settles = fst (test (testCardValues ! queueTurn a) (world a))\<rparr>],
        world := snd (test (testCardValues ! queueTurn a) (world a))\<rparr>"

text \<open>
  The shape of every state of the page that opened in the world \<open>w\<close>: the cards before
  the turn show the outcomes of their tests, the cards after it wait, and the page is
  mounted as long as all it has to show can be shown.
\<close>

definition sched_inv :: "'w test_card_value list \<Rightarrow> 'w \<Rightarrow> 'w app \<Rightarrow> bool" where
  "sched_inv testCardValues w a =
     (length (cards a) = length testCardValues \<and>
      queueTurn a \<le> length testCardValues \<and>
      (\<forall>k < queueTurn a. outcome_at testCardValues w k \<noteq> Pending \<and>
         cards a ! k = shown (outcome_at testCardValues w k)) \<and>
      (\<forall>k. queueTurn a < k \<and> k < length testCardValues \<longrightarrow> cards a ! k = not_begun) \<and>
      (mounted a \<longleftrightarrow> (\<forall>k < queueTurn a. renderable (testStatus (cards a ! k)))) \<and>
      (if \<not> mounted a then running a = [] \<and>
            (queueTurn a < length testCardValues \<longrightarrow> cards a ! queueTurn a = not_begun)
       else if effects_due a
       then running a = [] \<and> world a = world_at testCardValues w (queueTurn a) \<and>
            (queueTurn a < length testCardValues \<longrightarrow> cards a ! queueTurn a = not_begun)
       else if queueTurn a < length testCardValues
       then running a =
              [\<lparr>queueSpot = queueTurn a, capturedTurn = queueTurn a,
                settles = outcome_at testCardValues w (queueTurn a)\<rparr>] \<and>
            world a = world_at testCardValues w (Suc (queueTurn a)) \<and>
            cards a ! queueTurn a = shown Pending
       else running a = [] \<and> world a = world_at testCardValues w (queueTurn a)))"

text \<open>The test at a position begins in a step: its promise is in flight after it, not before.\<close>

definition begins :: "nat \<Rightarrow> 'w app \<Rightarrow> 'w app \<Rightarrow> bool" where
  "begins k a a' = (k \<notin> queueSpot ` set (running a) \<and> k \<in> queueSpot ` set (running a'))"

text \<open>
  The end of a run: the page is mounted, every card shows the terminal outcome of its
  test and nothing is left to happen.
\<close>

definition finished :: "'w test_card_value list \<Rightarrow> 'w \<Rightarrow> 'w app \<Rightarrow> bool" where
  "finished testCardValues w a =
     (mounted a \<and> queueTurn a = length testCardValues \<and>
      cards a = map (\<lambda>k. shown (outcome_at testCardValues w k)) [0..<length testCardValues] \<and>
      length (filter terminal (cards a)) = length testCardValues \<and>
      running a = [] \<and> \<not> effects_due a)"

text \<open>What is left to do: two steps for each test not yet settled, one for effects due.\<close>

definition rank :: "'w test_card_value list \<Rightarrow> 'w app \<Rightarrow> nat" where
  "rank testCardValues a =
     2 * (length testCardValues - queueTurn a) +
     (if effects_due a \<and> mounted a then 1 else 0)"

section \<open>Examples\<close>

text \<open>
  A kernel session that keeps the log of the test messages it has received, each under
  its number.  Message number \<open>special\<close> settles as \<open>reply\<close>, every other one is
  fulfilled; the other operations are not used with it.
\<close>

definition logging_kernel :: "nat \<Rightarrow> outcome \<Rightarrow> nat list libkernel" where
  "logging_kernel special reply =
     \<lparr>testMessage = (\<lambda>log. (if length log = special then reply else Fulfilled ''ok'',
                              log @ [length log])),
      callModule = (\<lambda>target method data log. (Pending, log)),
      connectModule = (\<lambda>target method data log. ([], log)),
      upload = (\<lambda>filename bytes log. (Pending, log)),
      download = (\<lambda>skylink log. (Pending, log)),
      addContextToErr = (\<lambda>err context. context @ '': '' @ err)\<rparr>"

text \<open>A page at \<open>example.com\<close>.\<close>

definition example_browser :: browser where
  "example_browser = \<lparr>hostname = ''example.com'', JSON_stringify = (\<lambda>v. ''{}'')\<rparr>"


text \<open>A kernel whose state counts the module calls and whose seed changes with each call.\<close>

definition changing_seed_kernel :: "nat libkernel" where
  "changing_seed_kernel =
     \<lparr>testMessage = (\<lambda>n. (Pending, n)),
      callModule = (\<lambda>target method data n.
        (if target = kernelTestSuite \<and> method = ''viewSeed''
         then Fulfilled [(''seed'', JBytes (replicate 16 (of_nat n)))]
         else Rejected ''error'', Suc n)),
      connectModule = (\<lambda>target method data n. ([], n)),
      upload = (\<lambda>filename bytes n. (Pending, n)),
      download = (\<lambda>skylink n. (Pending, n)),
      addContextToErr = (\<lambda>err context. context @ '': '' @ err)\<rparr>"

text \<open>A kernel that rejects every module call with one and the same reason.\<close>

definition one_reason_kernel :: "unit libkernel" where
  "one_reason_kernel =
     \<lparr>testMessage = (\<lambda>s. (Pending, s)),
      callModule = (\<lambda>target method data s. (Rejected ''error'', s)),
      connectModule = (\<lambda>target method data s. ([], s)),
      upload = (\<lambda>filename bytes s. (Pending, s)),
      download = (\<lambda>skylink s. (Pending, s)),
      addContextToErr = (\<lambda>err context. context @ '': '' @ err)\<rparr>"

text \<open>
  A kernel that answers \<open>mirrorDomain\<close> with the host name of the page and
  \<open>testerMirrorDomain\<close>, the call relayed by the test module, with the identifier of the
  relaying module; \<open>presentSeed\<close> and everything else is rejected.
\<close>

definition mirror_kernel :: "unit libkernel" where
  "mirror_kernel =
     \<lparr>testMessage = (\<lambda>s. (Pending, s)),
      callModule = (\<lambda>target method data s.
        (if target = kernelTestSuite \<and> method = ''mirrorDomain''
         then Fulfilled [(''domain'', JStr ''example.com'')]
         else if target = kernelTestSuite \<and> method = ''testerMirrorDomain''
         then Fulfilled [(''domain'', JStr kernelTestSuite)]
         else Rejected ''forbidden'', s)),
      connectModule = (\<lambda>target method data s. ([], s)),
      upload = (\<lambda>filename bytes s. (Pending, s)),
      download = (\<lambda>skylink s. (Pending, s)),
      addContextToErr = (\<lambda>err context. context @ '': '' @ err)\<rparr>"

text \<open>A kernel that rejects \<open>presentSeed\<close> from the page only for a seed of sixteen zero bytes.\<close>

definition zero_seed_kernel :: "unit libkernel" where
  "zero_seed_kernel =
     \<lparr>testMessage = (\<lambda>s. (Pending, s)),
      callModule = (\<lambda>target method data s.
        (if method = ''presentSeed'' \<and> data = [(''seed'', JBytes (replicate 16 0))]
         then Rejected ''forbidden'' else Fulfilled [], s)),
      connectModule = (\<lambda>target method data s. ([], s)),
      upload = (\<lambda>filename bytes s. (Pending, s)),
      download = (\<lambda>skylink s. (Pending, s)),
      addContextToErr = (\<lambda>err context. context @ '': '' @ err)\<rparr>"

text \<open>A kernel that answers \<open>mirrorDomain\<close> with the origin of the page at \<open>example.com\<close>.\<close>

definition origin_kernel :: "unit libkernel" where
  "origin_kernel =
     \<lparr>testMessage = (\<lambda>s. (Pending, s)),
      callModule = (\<lambda>target method data s.
        (if target = kernelTestSuite \<and> method = ''mirrorDomain''
         then Fulfilled [(''domain'', JStr ''https://example.com'')]
         else Rejected ''forbidden'', s)),
      connectModule = (\<lambda>target method data s. ([], s)),
      upload = (\<lambda>filename bytes s. (Pending, s)),
      download = (\<lambda>skylink s. (Pending, s)),
      addContextToErr = (\<lambda>err context. context @ '': '' @ err)\<rparr>"

text \<open>
  A kernel that stores every file under its name and gives it back as it was, except
  that an empty file comes back as one zero byte.
\<close>

definition padding_kernel :: "(string \<times> 8 word list) list libkernel" where
  "padding_kernel =
     \<lparr>testMessage = (\<lambda>s. (Pending, s)),
      callModule = (\<lambda>target method data s. (Pending, s)),
      connectModule = (\<lambda>target method data s. ([], s)),
      upload = (\<lambda>filename bytes s.
        (Fulfilled filename, (filename, if bytes = [] then [0] else bytes) # s)),
      download = (\<lambda>skylink s.
        (case map_of s skylink of
           None \<Rightarrow> Rejected ''not found''
         | Some bytes \<Rightarrow> Fulfilled bytes, s)),
      addContextToErr = (\<lambda>err context. context @ '': '' @ err)\<rparr>"

text \<open>
  A kernel that has a seed of sixteen bytes for the test module and knows the host name
  of the page, but lets the page call \<open>presentSeed\<close>.
\<close>

definition permissive_kernel :: "unit libkernel" where
  "permissive_kernel =
     \<lparr>testMessage = (\<lambda>s. (Fulfilled ''ok'', s)),
      callModule = (\<lambda>target method data s.
        (if method = ''viewSeed'' then Fulfilled [(''seed'', JBytes (replicate 16 7))]
         else if method = ''presentSeed'' then Fulfilled []
         else if method = ''mirrorDomain'' then Fulfilled [(''domain'', JStr ''example.com'')]
         else Rejected ''unknown method'', s)),
      connectModule = (\<lambda>target method data s. ([], s)),
      upload = (\<lambda>filename bytes s. (Pending, s)),
      download = (\<lambda>skylink s. (Pending, s)),
      addContextToErr = (\<lambda>err context. context @ '': '' @ err)\<rparr>"

text \<open>
  An \<open>Error\<close> object, such as the \<open>TypeError\<close> that \<open>TestModuleHasSeed\<close> catches and
  rejects with when the seed in the response is \<open>null\<close>.
\<close>

definition error_object :: jsval where
  "error_object = JObj [(''message'', JStr ''Cannot read properties of null'')]"

text \<open>
  Two registries of two tests.  In both the second test is \<open>TestModulePresentSeed\<close>
  against a kernel that rejects the call, so it succeeds.  The first test fails: in the
  one registry its promise is rejected with an \<open>Error\<close> object, in the other with a
  text.
\<close>

definition object_reason_tests :: "unit test_card_value list" where
  "object_reason_tests =
     [\<lparr>name = ''rejects with an Error'', test = (\<lambda>w. (Rejected error_object, w))\<rparr>,
      \<lparr>name = ''TestModulePresentSeed'',
       test = on_page (TestModulePresentSeed mirror_kernel)\<rparr>]"

definition text_reason_tests :: "unit test_card_value list" where
  "text_reason_tests =
     [\<lparr>name = ''rejects with a text'', test = (\<lambda>w. (Rejected (JStr ''no seed''), w))\<rparr>,
      \<lparr>name = ''TestModulePresentSeed'',
       test = on_page (TestModulePresentSeed mirror_kernel)\<rparr>]"

text \<open>The page of each registry once its first test is in flight, and once it has failed.\<close>

definition first_running :: "jsval \<Rightarrow> unit app" where
  "first_running reason =
     \<lparr>queueTurn = 0,
      cards = [\<lparr>testStatus = JStr ''test is running'', statusColor = orange\<rparr>,
               \<lparr>testStatus = JStr ''test is waiting'', statusColor = grey\<rparr>],
      running = [\<lparr>queueSpot = 0, capturedTurn = 0, settles = Rejected reason\<rparr>],
      effects_due = False, mounted = True, world = ()\<rparr>"

definition first_failed :: "jsval \<Rightarrow> unit app" where
  "first_failed reason =
     \<lparr>queueTurn = 1,
      cards = [\<lparr>testStatus = reason, statusColor = red\<rparr>,
               \<lparr>testStatus = JStr ''test is waiting'', statusColor = grey\<rparr>],
      running = [],
      effects_due = True, mounted = renderable reason, world = ()\<rparr>"

section \<open>Properties\<close>

lemma resolve_Pending [simp]: "resolve v Pending = Fulfilled v"
  by (simp add: resolve_def)

lemma reject_Pending [simp]: "reject e Pending = Rejected e"
  by (simp add: reject_def)

lemma resolve_settled [simp]: "p \<noteq> Pending \<Longrightarrow> resolve v p = p"
  by (cases p) (simp_all add: resolve_def)

lemma reject_settled [simp]: "p \<noteq> Pending \<Longrightarrow> reject e p = p"
  by (cases p) (simp_all add: reject_def)

lemma then_catch_simps [simp]:
  "then_catch Pending f g p = p"
  "then_catch (Rejected e) f g p = g e p"
  "then_catch (Fulfilled v) f g p = (case f v p of Inl e \<Rightarrow> g e p | Inr p' \<Rightarrow> p')"
  by (simp_all add: then_catch_def)

subsection \<open>The scheduler\<close>

lemma colours_distinct [simp]:
  "grey \<noteq> orange" "grey \<noteq> green" "grey \<noteq> red"
  "orange \<noteq> grey" "orange \<noteq> green" "orange \<noteq> red"
  "green \<noteq> grey" "green \<noteq> orange" "green \<noteq> red"
  "red \<noteq> grey" "red \<noteq> orange" "red \<noteq> green"
  by (simp_all add: grey_def orange_def green_def red_def)

lemma card_colour [simp]:
  "waiting \<lparr>testStatus = t, statusColor = c\<rparr> = (c = grey)"
  "in_progress \<lparr>testStatus = t, statusColor = c\<rparr> = (c = orange)"
  "terminal \<lparr>testStatus = t, statusColor = c\<rparr> = (c = green \<or> c = red)"
  "begun \<lparr>testStatus = t, statusColor = c\<rparr> = (c \<noteq> grey)"
  by (simp_all add: waiting_def in_progress_def terminal_def begun_def)

lemma shown_simps [simp]:
  "shown Pending = \<lparr>testStatus = JStr ''test is running'', statusColor = orange\<rparr>"
  "shown (Fulfilled x) = \<lparr>testStatus = JStr (''test success: '' @ x), statusColor = green\<rparr>"
  "shown (Rejected y) = \<lparr>testStatus = y, statusColor = red\<rparr>"
  by (simp_all add: shown_def)

lemma shown_terminal: "out \<noteq> Pending \<Longrightarrow> terminal (shown out)"
  by (cases out) simp_all

lemma not_begun_simps [simp]:
  "renderable (testStatus not_begun)" "waiting not_begun" "\<not> begun not_begun"
  "\<not> terminal not_begun"
  by (simp_all add: not_begun_def waiting_def begun_def terminal_def)

lemma useEffect_begin:
  "TestCard_useEffect reg spot a = (if queueTurn a = spot then begin_test reg a else a)"
  by (simp add: TestCard_useEffect_def begin_test_def split: prod.split)

lemma queueTurn_begin [simp]: "queueTurn (begin_test reg a) = queueTurn a"
  by (simp add: begin_test_def set_card_def)

lemma fold_useEffect:
  "distinct ks \<Longrightarrow>
   fold (TestCard_useEffect reg) ks a = (if queueTurn a \<in> set ks then begin_test reg a else a)"
proof (induction ks arbitrary: a)
  case Nil
  then show ?case by simp
next
  case (Cons k ks)
  then show ?case by (auto simp add: useEffect_begin)
qed

lemma run_effects_eq:
  "run_effects reg a =
     (if queueTurn a < length reg then begin_test reg (a\<lparr>effects_due := False\<rparr>)
      else a\<lparr>effects_due := False\<rparr>)"
  by (simp add: run_effects_def fold_useEffect)

lemma sched_inv_App: "sched_inv reg w (App reg w)"
  by (simp add: sched_inv_def App_def not_begun_def)

lemma sched_inv_effects:
  assumes "sched_inv reg w a" "effects_due a" "mounted a"
  shows "sched_inv reg w (run_effects reg a)"
  using assms
  by (auto simp add: sched_inv_def run_effects_eq begin_test_def set_card_def nth_list_update
        outcome_at_def)

lemma sched_inv_running:
  assumes "sched_inv reg w a" "r \<in> set (running a)"
  shows "mounted a \<and> \<not> effects_due a \<and> queueTurn a < length reg \<and> running a = [r] \<and>
         r = \<lparr>queueSpot = queueTurn a, capturedTurn = queueTurn a,
              settles = outcome_at reg w (queueTurn a)\<rparr> \<and>
         world a = world_at reg w (Suc (queueTurn a)) \<and>
         cards a ! queueTurn a = shown Pending"
  using assms by (auto simp add: sched_inv_def split: if_splits)

lemma render_after_settle:
  assumes "sched_inv reg w a" "mounted a" "queueTurn a < length reg"
  shows "list_all (\<lambda>c. renderable (testStatus c)) ((cards a)[queueTurn a := c]) \<longleftrightarrow>
         renderable (testStatus c)"
proof -
  have len: "length (cards a) = length reg" using assms(1) by (simp add: sched_inv_def)
  have before: "renderable (testStatus (cards a ! k))" if "k < queueTurn a" for k
    using assms(1,2) that unfolding sched_inv_def by blast
  have after: "renderable (testStatus (cards a ! k))" if "queueTurn a < k" "k < length reg" for k
    using assms(1) that by (simp add: sched_inv_def)
  show ?thesis
  proof
    assume "list_all (\<lambda>c. renderable (testStatus c)) ((cards a)[queueTurn a := c])"
    then have "\<forall>n < length reg. renderable (testStatus (((cards a)[queueTurn a := c]) ! n))"
      using len by (simp add: list_all_length)
    with assms(3) have "renderable (testStatus (((cards a)[queueTurn a := c]) ! queueTurn a))"
      by blast
    then show "renderable (testStatus c)" using assms(3) len by simp
  next
    assume c: "renderable (testStatus c)"
    show "list_all (\<lambda>c. renderable (testStatus c)) ((cards a)[queueTurn a := c])"
      unfolding list_all_length
    proof (intro allI impI)
      fix k
      assume "k < length ((cards a)[queueTurn a := c])"
      then have k: "k < length reg" using len by simp
      consider "k < queueTurn a" | "k = queueTurn a" | "queueTurn a < k" by linarith
      then show "renderable (testStatus ((cards a)[queueTurn a := c] ! k))"
        using before after c k len by cases (simp_all add: nth_list_update)
    qed
  qed
qed

lemma settle_eq:
  assumes "sched_inv reg w a" "r \<in> set (running a)" "settles r \<noteq> Pending"
  shows "settle r a =
     a\<lparr>running := [],
       cards := (cards a)[queueTurn a := shown (outcome_at reg w (queueTurn a))],
       queueTurn := queueTurn a + 1, effects_due := True,
       mounted := renderable (testStatus (shown (outcome_at reg w (queueTurn a))))\<rparr>"
proof -
  from sched_inv_running [OF assms(1,2)]
  have r: "running a = [r]" "queueSpot r = queueTurn a" "capturedTurn r = queueTurn a"
    "settles r = outcome_at reg w (queueTurn a)" "mounted a" "queueTurn a < length reg"
    by auto
  note rend = render_after_settle [OF assms(1) r(5,6)]
  define out where "out = outcome_at reg w (queueTurn a)"
  have s: "settles r = out" using r(4) by (simp add: out_def)
  have "settle r a =
     a\<lparr>running := [], cards := (cards a)[queueTurn a := shown out],
       queueTurn := queueTurn a + 1, effects_due := True,
       mounted := renderable (testStatus (shown out))\<rparr>"
  proof (cases out)
    case Pending
    with assms(3) s show ?thesis by simp
  next
    case (Fulfilled x)
    with r(1,2,3,5) s rend [of "shown (Fulfilled x)"] show ?thesis
      by (simp add: settle_def test_then_def setQueueTurn_def set_card_def render_def)
  next
    case (Rejected x)
    with r(1,2,3,5) s rend [of "shown (Rejected x)"] show ?thesis
      by (simp add: settle_def test_catch_def setQueueTurn_def set_card_def render_def)
  qed
  then show ?thesis by (simp add: out_def)
qed

lemma sched_inv_settle:
  assumes "sched_inv reg w a" "r \<in> set (running a)" "settles r \<noteq> Pending"
  shows "sched_inv reg w (settle r a)"
proof -
  from sched_inv_running [OF assms(1,2)] assms(3)
  have lt: "queueTurn a < length reg" "mounted a" "outcome_at reg w (queueTurn a) \<noteq> Pending"
    "\<not> effects_due a"
    by auto
  show ?thesis
    unfolding settle_eq [OF assms]
    using assms(1) lt
    by (auto simp add: sched_inv_def nth_list_update less_Suc_eq)
qed

lemma sched_inv_step: "sched_inv reg w a \<Longrightarrow> step reg a a' \<Longrightarrow> sched_inv reg w a'"
  by (auto elim!: step.cases intro: sched_inv_effects sched_inv_settle)

lemma reachable_inv: "reachable reg w a \<Longrightarrow> sched_inv reg w a"
  by (induction rule: reachable.induct) (auto intro: sched_inv_App sched_inv_step)

lemma sched_inv_steps: "(step reg)\<^sup>*\<^sup>* a a' \<Longrightarrow> sched_inv reg w a \<Longrightarrow> sched_inv reg w a'"
  by (induction rule: rtranclp_induct) (auto intro: sched_inv_step)

lemma running_at_most_one: "sched_inv reg w a \<Longrightarrow> length (running a) \<le> 1"
  by (auto simp add: sched_inv_def split: if_splits)

lemma rank_step:
  assumes "sched_inv reg w a" "step reg a a'"
  shows "rank reg a' < rank reg a"
  using assms(2)
proof (cases rule: step.cases)
  case step_effects
  then show ?thesis by (simp add: rank_def run_effects_eq begin_test_def set_card_def)
next
  case (step_settle r)
  from sched_inv_running [OF assms(1) step_settle(2)]
  have "queueTurn a < length reg" "\<not> effects_due a" by simp_all
  then show ?thesis
    unfolding step_settle(1) settle_eq [OF assms(1) step_settle(2,3)]
    by (auto simp add: rank_def)
qed

text \<open>
  The step in which a test begins: it is the test at the turn, called in the world
  the tests before it have left, and every card before it shows the outcome of its
  test.
\<close>

lemma begins_step:
  assumes "sched_inv reg w a" "step reg a a'" "begins k a a'"
  shows "k = queueTurn a \<and> k < length reg \<and>
         (\<forall>j<k. cards a ! j = shown (outcome_at reg w j) \<and> terminal (cards a ! j)) \<and>
         running a' = [\<lparr>queueSpot = k, capturedTurn = k,
                         settles = fst (test (reg ! k) (world_at reg w k))\<rparr>] \<and>
         world a = world_at reg w k \<and>
         world a' = snd (test (reg ! k) (world_at reg w k))"
  using assms(2)
proof (cases rule: step.cases)
  case step_effects
  with assms(3) have lt: "queueTurn a < length reg"
    by (auto simp add: begins_def run_effects_eq split: if_splits)
  from assms(1) step_effects have pre: "running a = []" "world a = world_at reg w (queueTurn a)"
    "\<forall>j<queueTurn a. outcome_at reg w j \<noteq> Pending \<and> cards a ! j = shown (outcome_at reg w j)"
    by (simp_all add: sched_inv_def)
  from assms(3) lt pre(1) have k: "k = queueTurn a"
    unfolding step_effects(1)
    by (auto simp add: begins_def run_effects_eq begin_test_def set_card_def)
  have "\<forall>j<k. cards a ! j = shown (outcome_at reg w j) \<and> terminal (cards a ! j)"
    using pre(3) k by (simp add: shown_terminal)
  with k lt pre show ?thesis
    unfolding step_effects(1)
    by (auto simp add: run_effects_eq begin_test_def set_card_def)
next
  case (step_settle r)
  with assms(3) show ?thesis
    unfolding step_settle(1) settle_eq [OF assms(1) step_settle(2,3)]
    by (simp add: begins_def)
qed

lemma mounted_if_renderable:
  assumes "sched_inv reg w a" "reasons_renderable reg w"
  shows "mounted a"
proof -
  have "renderable (testStatus (cards a ! k))" if "k < queueTurn a" for k
  proof -
    from assms(1) that have c: "cards a ! k = shown (outcome_at reg w k)" and "k < length reg"
      by (auto simp add: sched_inv_def)
    with assms(2) show ?thesis
      by (cases "outcome_at reg w k") (auto simp add: reasons_renderable_def)
  qed
  with assms(1) show ?thesis unfolding sched_inv_def by blast
qed

text \<open>A state in which nothing can happen, when every test of the run settles.\<close>

lemma stuck_state:
  assumes "sched_inv reg w a" "all_settle reg w" "\<forall>a'. \<not> step reg a a'"
  shows "(mounted a \<longrightarrow> finished reg w a) \<and>
         (\<not> mounted a \<longrightarrow>
            (\<exists>k x. k < queueTurn a \<and> outcome_at reg w k = Rejected x \<and> \<not> renderable x))"
proof (intro conjI impI)
  assume m: "mounted a"
  have nd: "\<not> effects_due a"
    using assms(3) m step.step_effects by blast
  have "\<not> queueTurn a < length reg"
  proof
    assume lt: "queueTurn a < length reg"
    with assms(1) nd m have
      r: "running a = [\<lparr>queueSpot = queueTurn a, capturedTurn = queueTurn a,
                 settles = outcome_at reg w (queueTurn a)\<rparr>]"
      by (auto simp add: sched_inv_def)
    have "outcome_at reg w (queueTurn a) \<noteq> Pending"
      using assms(2) lt by (simp add: all_settle_def)
    with r have "step reg a (settle \<lparr>queueSpot = queueTurn a, capturedTurn = queueTurn a,
                 settles = outcome_at reg w (queueTurn a)\<rparr> a)"
      by (intro step.step_settle) auto
    with assms(3) show False by blast
  qed
  with assms(1) nd m have f: "queueTurn a = length reg" "length (cards a) = length reg"
    "\<forall>k < length reg. outcome_at reg w k \<noteq> Pending \<and> cards a ! k = shown (outcome_at reg w k)"
    "running a = []"
    by (auto simp add: sched_inv_def)
  have c: "cards a = map (\<lambda>k. shown (outcome_at reg w k)) [0..<length reg]"
    using f(2,3) by (intro nth_equalityI) simp_all
  have "\<forall>c \<in> set (cards a). terminal c"
    using f(3) unfolding c by (auto simp add: shown_terminal)
  then have "length (filter terminal (cards a)) = length (cards a)" by simp
  with f c nd m show "finished reg w a" by (simp add: finished_def)
next
  assume m: "\<not> mounted a"
  with assms(1) obtain k where k: "k < queueTurn a" "\<not> renderable (testStatus (cards a ! k))"
    unfolding sched_inv_def by blast
  from assms(1) k(1) have c: "cards a ! k = shown (outcome_at reg w k)"
    "outcome_at reg w k \<noteq> Pending"
    by (simp_all add: sched_inv_def)
  with k(2) obtain x where "outcome_at reg w k = Rejected x" "\<not> renderable x"
    by (cases "outcome_at reg w k") simp_all
  with k(1) show "\<exists>k x. k < queueTurn a \<and> outcome_at reg w k = Rejected x \<and> \<not> renderable x"
    by blast
qed

lemma reaches_stuck:
  "sched_inv reg w a \<Longrightarrow> \<exists>a'. (step reg)\<^sup>*\<^sup>* a a' \<and> (\<forall>a''. \<not> step reg a' a'')"
proof (induction "rank reg a" arbitrary: a rule: less_induct)
  case less
  show ?case
  proof (cases "\<exists>b. step reg a b")
    case False
    then show ?thesis by blast
  next
    case True
    then obtain b where b: "step reg a b" by blast
    have "rank reg b < rank reg a" using less.prems b by (rule rank_step)
    moreover have "sched_inv reg w b" using less.prems b by (rule sched_inv_step)
    ultimately obtain a' where "(step reg)\<^sup>*\<^sup>* b a'" "\<forall>a''. \<not> step reg a' a''"
      using less.hyps by blast
    with b show ?thesis by (meson converse_rtranclp_into_rtranclp)
  qed
qed

text \<open>
  What holds of every run in every registry: the tests begin one at a time, in the
  order of the registry, each in the world the ones before have left and only when
  they all show a terminal outcome; no run goes on for ever; and when every test
  settles and every reason can be shown, the run ends with all cards showing the
  outcome of their test and the turn at the number of tests.
\<close>

lemma runs_in_order:
  assumes "reachable reg w a"
  shows "(\<forall>a' k. step reg a a' \<and> begins k a a' \<longrightarrow>
            k = queueTurn a \<and>
            (\<forall>j<k. cards a ! j = shown (outcome_at reg w j) \<and> terminal (cards a ! j)) \<and>
            running a' = [\<lparr>queueSpot = k, capturedTurn = k,
                            settles = fst (test (reg ! k) (world_at reg w k))\<rparr>] \<and>
            world a' = snd (test (reg ! k) (world_at reg w k))) \<and>
         length (running a) \<le> 1 \<and>
         (\<forall>a'. step reg a a' \<longrightarrow> rank reg a' < rank reg a \<and> queueTurn a \<le> queueTurn a') \<and>
         (all_settle reg w \<and> reasons_renderable reg w \<longrightarrow>
            (\<exists>a'. (step reg)\<^sup>*\<^sup>* a a' \<and> finished reg w a') \<and>
            (\<forall>a'. (step reg)\<^sup>*\<^sup>* a a' \<and> (\<forall>a''. \<not> step reg a' a'') \<longrightarrow> finished reg w a'))"
proof -
  from assms have inv: "sched_inv reg w a" by (rule reachable_inv)
  have 1: "\<forall>a' k. step reg a a' \<and> begins k a a' \<longrightarrow>
            k = queueTurn a \<and>
            (\<forall>j<k. cards a ! j = shown (outcome_at reg w j) \<and> terminal (cards a ! j)) \<and>
            running a' = [\<lparr>queueSpot = k, capturedTurn = k,
                            settles = fst (test (reg ! k) (world_at reg w k))\<rparr>] \<and>
            world a' = snd (test (reg ! k) (world_at reg w k))"
    using begins_step [OF inv] by blast
  have 2: "length (running a) \<le> 1"
    using inv by (rule running_at_most_one)
  have 3: "\<forall>a'. step reg a a' \<longrightarrow> rank reg a' < rank reg a \<and> queueTurn a \<le> queueTurn a'"
  proof (intro allI impI conjI)
    fix a'
    assume s: "step reg a a'"
    show "rank reg a' < rank reg a" using inv s by (rule rank_step)
    from s show "queueTurn a \<le> queueTurn a'"
    proof (cases rule: step.cases)
      case step_effects
      then show ?thesis by (simp add: run_effects_eq)
    next
      case (step_settle r)
      show ?thesis
        unfolding step_settle(1) settle_eq [OF inv step_settle(2,3)] by simp
    qed
  qed
  have 4: "all_settle reg w \<and> reasons_renderable reg w \<longrightarrow>
            (\<exists>a'. (step reg)\<^sup>*\<^sup>* a a' \<and> finished reg w a') \<and>
            (\<forall>a'. (step reg)\<^sup>*\<^sup>* a a' \<and> (\<forall>a''. \<not> step reg a' a'') \<longrightarrow> finished reg w a')"
  proof (intro impI)
    assume s: "all_settle reg w \<and> reasons_renderable reg w"
    have fin: "finished reg w a'" if "(step reg)\<^sup>*\<^sup>* a a'" "\<forall>a''. \<not> step reg a' a''" for a'
    proof -
      have i: "sched_inv reg w a'" using that(1) inv by (rule sched_inv_steps)
      then have "mounted a'" using s by (intro mounted_if_renderable) auto
      with stuck_state [OF i _ that(2)] s show ?thesis by blast
    qed
    from reaches_stuck [OF inv] fin
    show "(\<exists>a'. (step reg)\<^sup>*\<^sup>* a a' \<and> finished reg w a') \<and>
            (\<forall>a'. (step reg)\<^sup>*\<^sup>* a a' \<and> (\<forall>a''. \<not> step reg a' a'') \<longrightarrow> finished reg w a')"
      by blast
  qed
  from 1 2 3 4 show ?thesis by blast
qed

lemma present_seed_on_page:
  "on_page (TestModulePresentSeed mirror_kernel) () =
     (Fulfilled ''received expected error: forbidden'', ())"
  by (simp add: on_page_def TestModulePresentSeed_def mirror_kernel_def)

lemma object_reason_outcomes:
  "outcome_at object_reason_tests () 0 = Rejected error_object"
  "outcome_at object_reason_tests () 1 = Fulfilled ''received expected error: forbidden''"
  by (simp_all add: outcome_at_def object_reason_tests_def present_seed_on_page)

lemma error_object_refused [simp]: "\<not> renderable error_object"
  by (simp add: error_object_def)

lemma object_reason_run:
  "run_effects object_reason_tests (App object_reason_tests ()) = first_running error_object"
  "settle \<lparr>queueSpot = 0, capturedTurn = 0, settles = Rejected error_object\<rparr>
     (first_running error_object) = first_failed error_object"
  by (simp_all add: run_effects_eq App_def object_reason_tests_def begin_test_def set_card_def
        first_running_def first_failed_def settle_def test_catch_def setQueueTurn_def
        render_def)

lemma text_reason_run:
  "run_effects text_reason_tests (App text_reason_tests ()) = first_running (JStr ''no seed'')"
  "settle \<lparr>queueSpot = 0, capturedTurn = 0, settles = Rejected (JStr ''no seed'')\<rparr>
     (first_running (JStr ''no seed'')) = first_failed (JStr ''no seed'')"
  by (simp_all add: run_effects_eq App_def text_reason_tests_def begin_test_def set_card_def
        first_running_def first_failed_def settle_def test_catch_def setQueueTurn_def
        render_def)

lemma steps_of_App:
  "step object_reason_tests (App object_reason_tests ()) a' \<longleftrightarrow> a' = first_running error_object"
proof
  assume "step object_reason_tests (App object_reason_tests ()) a'"
  then show "a' = first_running error_object"
    by (cases rule: step.cases) (simp_all add: object_reason_run, simp add: App_def)
next
  assume "a' = first_running error_object"
  then show "step object_reason_tests (App object_reason_tests ()) a'"
    using step_effects [of "App object_reason_tests ()" object_reason_tests]
    by (simp add: object_reason_run) (simp add: App_def)
qed

lemma settle_first_running:
  "settle \<lparr>queueSpot = 0, capturedTurn = 0, settles = Rejected reason\<rparr> (first_running reason) =
     first_failed reason"
  by (cases "renderable reason")
     (simp_all add: first_running_def first_failed_def settle_def test_catch_def
        setQueueTurn_def set_card_def render_def)

lemma steps_of_first_running:
  "step reg (first_running reason) a' \<longleftrightarrow> a' = first_failed reason"
proof
  assume "step reg (first_running reason) a'"
  then show "a' = first_failed reason"
  proof (cases rule: step.cases)
    case step_effects
    then show ?thesis by (simp add: first_running_def)
  next
    case (step_settle r)
    then have "r = \<lparr>queueSpot = 0, capturedTurn = 0, settles = Rejected reason\<rparr>"
      by (simp add: first_running_def)
    with step_settle(1) show ?thesis by (simp add: settle_first_running)
  qed
next
  assume a: "a' = first_failed reason"
  have "step reg (first_running reason)
          (settle \<lparr>queueSpot = 0, capturedTurn = 0, settles = Rejected reason\<rparr>
             (first_running reason))"
    by (rule step_settle) (simp_all add: first_running_def)
  then show "step reg (first_running reason) a'"
    unfolding a by (simp add: settle_first_running)
qed

lemma no_step_after_object: "\<not> step reg (first_failed error_object) a'"
proof
  assume "step reg (first_failed error_object) a'"
  then show False
    by (cases rule: step.cases) (simp_all add: first_failed_def)
qed

lemma object_reason_states:
  assumes "reachable reg w a" "reg = object_reason_tests"
  shows "a = App object_reason_tests () \<or> a = first_running error_object \<or>
         a = first_failed error_object"
  using assms
proof (induction rule: reachable.induct)
  case (reachable_App reg w)
  then show ?case by simp
next
  case (reachable_step reg w a a')
  then show ?case
    using steps_of_App steps_of_first_running no_step_after_object by auto
qed

lemma object_reason_reachable:
  "{a. reachable object_reason_tests () a} =
     {App object_reason_tests (), first_running error_object, first_failed error_object}"
proof -
  have 0: "reachable object_reason_tests () (App object_reason_tests ())"
    by (rule reachable_App)
  have "step object_reason_tests (App object_reason_tests ()) (first_running error_object)"
    by (simp add: steps_of_App)
  with 0 have 1: "reachable object_reason_tests () (first_running error_object)"
    by (rule reachable_step)
  have "step object_reason_tests (first_running error_object) (first_failed error_object)"
    by (simp add: steps_of_first_running)
  with 1 have 2: "reachable object_reason_tests () (first_failed error_object)"
    by (rule reachable_step)
  from 0 1 2 object_reason_states show ?thesis by auto
qed

lemma text_reason_reachable:
  "reachable text_reason_tests () (first_failed (JStr ''no seed''))"
proof -
  have 0: "reachable text_reason_tests () (App text_reason_tests ())"
    by (rule reachable_App)
  have "step text_reason_tests (App text_reason_tests ())
          (run_effects text_reason_tests (App text_reason_tests ()))"
    by (rule step_effects) (simp_all add: App_def)
  with 0 have 1: "reachable text_reason_tests () (first_running (JStr ''no seed''))"
    unfolding text_reason_run by (rule reachable_step)
  have "step text_reason_tests (first_running (JStr ''no seed'')) (first_failed (JStr ''no seed''))"
    by (simp add: steps_of_first_running)
  with 1 show ?thesis by (rule reachable_step)
qed

lemma text_reason_next:
  "run_effects text_reason_tests (first_failed (JStr ''no seed'')) =
     \<lparr>queueTurn = 1,
      cards = [\<lparr>testStatus = JStr ''no seed'', statusColor = red\<rparr>,
               \<lparr>testStatus = JStr ''test is running'', statusColor = orange\<rparr>],
      running = [\<lparr>queueSpot = 1, capturedTurn = 1,
                  settles = Fulfilled ''received expected error: forbidden''\<rparr>],
      effects_due = False, mounted = True, world = ()\<rparr>"
  by (simp add: run_effects_eq first_failed_def text_reason_tests_def begin_test_def
        set_card_def present_seed_on_page)

text \<open>
  Claim C1.  The claim holds of every run in which every rejection reason can be shown,
  as the lemma \<open>runs_in_order\<close> says.  It fails when a test is rejected with an \<open>Error\<close>
  object.  In the registry below both tests settle, the first with such an object.
  The page goes through three states and no others: after the \<open>catch\<close> handler has
  handed the object to \<open>setTestStatus\<close> the page is unmounted and nothing more can
  happen.  None of the three states is the end of a run as the claim has it, with two
  terminal outcomes and the turn at 2: in the last one the second test has not begun.
\<close>

theorem scheduler_stops_at_error_object:
  "outcome_at object_reason_tests () 0 = Rejected error_object \<and>
   outcome_at object_reason_tests () 1 = Fulfilled ''received expected error: forbidden'' \<and>
   length object_reason_tests = 2 \<and>
   {a. reachable object_reason_tests () a} =
     {App object_reason_tests (), first_running error_object, first_failed error_object} \<and>
   (\<forall>a'. \<not> step object_reason_tests (first_failed error_object) a') \<and>
   \<not> finished object_reason_tests () (App object_reason_tests ()) \<and>
   \<not> finished object_reason_tests () (first_running error_object) \<and>
   \<not> finished object_reason_tests () (first_failed error_object) \<and>
   \<not> mounted (first_failed error_object) \<and>
   \<not> begun (cards (first_failed error_object) ! 1)"
proof -
  have "\<forall>a'. \<not> step object_reason_tests (first_failed error_object) a'"
    using no_step_after_object by blast
  moreover have "\<not> finished object_reason_tests () (App object_reason_tests ())"
    "\<not> finished object_reason_tests () (first_running error_object)"
    "\<not> finished object_reason_tests () (first_failed error_object)"
    by (simp_all add: finished_def App_def first_running_def first_failed_def
          object_reason_tests_def)
  moreover have "\<not> mounted (first_failed error_object)"
    "\<not> begun (cards (first_failed error_object) ! 1)"
    "length object_reason_tests = 2"
    by (simp_all add: first_failed_def object_reason_tests_def)
  ultimately show ?thesis
    using object_reason_outcomes object_reason_reachable by blast
qed

text \<open>
  Claim C2.  The failure of a test stops the queue when the reason is an \<open>Error\<close>
  object: the promise in flight is rejected, the handler runs, the page is unmounted,
  and although another test is left no step follows, so that test never starts.  With
  the same registry and a text for a reason, the \<open>catch\<close> handler leaves the page mounted
  and the effects begin the next test, as the \<open>then\<close> handler, which always writes a
  text, does.
\<close>

theorem failure_stops_queue_at_error_object:
  "reachable object_reason_tests () (first_running error_object) \<and>
   running (first_running error_object) =
     [\<lparr>queueSpot = 0, capturedTurn = 0, settles = Rejected error_object\<rparr>] \<and>
   step object_reason_tests (first_running error_object) (first_failed error_object) \<and>
   \<not> mounted (first_failed error_object) \<and>
   (\<forall>a'. \<not> step object_reason_tests (first_failed error_object) a') \<and>
   1 < length object_reason_tests \<and>
   reachable text_reason_tests () (first_failed (JStr ''no seed'')) \<and>
   mounted (first_failed (JStr ''no seed'')) \<and>
   step text_reason_tests (first_failed (JStr ''no seed''))
     (run_effects text_reason_tests (first_failed (JStr ''no seed''))) \<and>
   begins 1 (first_failed (JStr ''no seed''))
     (run_effects text_reason_tests (first_failed (JStr ''no seed'')))"
proof -
  have 0: "reachable object_reason_tests () (App object_reason_tests ())"
    by (rule reachable_App)
  have "step object_reason_tests (App object_reason_tests ()) (first_running error_object)"
    by (simp add: steps_of_App)
  with 0 have 1: "reachable object_reason_tests () (first_running error_object)"
    by (rule reachable_step)
  have 2: "running (first_running error_object) =
     [\<lparr>queueSpot = 0, capturedTurn = 0, settles = Rejected error_object\<rparr>]"
    by (simp add: first_running_def)
  have 3: "step object_reason_tests (first_running error_object) (first_failed error_object)"
    by (simp add: steps_of_first_running)
  have 4: "\<not> mounted (first_failed error_object)" "mounted (first_failed (JStr ''no seed''))"
    "1 < length object_reason_tests"
    by (simp_all add: first_failed_def object_reason_tests_def)
  have 5: "\<forall>a'. \<not> step object_reason_tests (first_failed error_object) a'"
    using no_step_after_object by blast
  have 6: "step text_reason_tests (first_failed (JStr ''no seed''))
     (run_effects text_reason_tests (first_failed (JStr ''no seed'')))"
    by (rule step_effects) (simp_all add: first_failed_def)
  have 7: "begins 1 (first_failed (JStr ''no seed''))
     (run_effects text_reason_tests (first_failed (JStr ''no seed'')))"
    unfolding text_reason_next by (simp add: begins_def first_failed_def)
  from 1 2 3 4 5 6 7 text_reason_reachable show ?thesis by blast
qed

subsection \<open>TestResponseUpdates\<close>














lemma updates_of_append [simp]: "updates_of (xs @ ys) = updates_of xs @ updates_of ys"
  by (induction xs rule: updates_of.induct) simp_all











subsection \<open>TestModuleHasSeed\<close>

lemma js_length_16_bytes: "js_length (JBytes bs) = Inr (JNum 16) \<longleftrightarrow> length bs = 16"
  by (simp add: js_length_def)

text \<open>
  Claim C4, as amended.  The test sends one \<open>viewSeed\<close> query to the test module, and
  is fulfilled exactly when the response has a field \<open>seed\<close> whose \<open>length\<close> is 16; a
  seed that is a byte array then has exactly 16 bytes.  The session after the test is
  the session after that one query: there is no second query to compare with.
\<close>

theorem has_seed_checks_length:
  "(fst (TestModuleHasSeed K s) = Fulfilled m \<longleftrightarrow>
      m = ''viewSeed appears to have returned a standard seed'' \<and>
      (\<exists>data. fst (callModule K kernelTestSuite ''viewSeed'' [] s) = Fulfilled data \<and>
         js_in ''seed'' data \<and> js_length (js_get data ''seed'') = Inr (JNum 16))) \<and>
   snd (TestModuleHasSeed K s) = snd (callModule K kernelTestSuite ''viewSeed'' [] s) \<and>
   (\<forall>data bs. fst (TestModuleHasSeed K s) = Fulfilled m \<and>
      fst (callModule K kernelTestSuite ''viewSeed'' [] s) = Fulfilled data \<and>
      js_get data ''seed'' = JBytes bs \<longrightarrow> length bs = 16)"
proof -
  obtain q s' where c: "callModule K kernelTestSuite ''viewSeed'' [] s = (q, s')"
    by (cases "callModule K kernelTestSuite ''viewSeed'' [] s")
  show ?thesis
    by (cases q)
       (auto simp add: TestModuleHasSeed_def c js_length_16_bytes split: sum.splits)
qed

theorem has_seed_checks_length_witness:
  "fst (TestModuleHasSeed changing_seed_kernel 0) =
     Fulfilled ''viewSeed appears to have returned a standard seed'' \<and>
   snd (TestModuleHasSeed changing_seed_kernel 0) = 1 \<and>
   length (replicate 16 (0 :: 8 word)) = 16"
proof -
  have c: "callModule changing_seed_kernel kernelTestSuite ''viewSeed'' [] 0 =
      (Fulfilled [(''seed'', JBytes (replicate 16 0))], 1)"
    by (simp add: changing_seed_kernel_def)
  have g: "js_in ''seed'' [(''seed'', JBytes (replicate 16 0))]"
    "js_get [(''seed'', JBytes (replicate 16 0))] ''seed'' = JBytes (replicate 16 0)"
    by (simp_all add: js_in_def js_get_def)
  have l: "js_length (JBytes (replicate 16 0)) = Inr (JNum 16)"
    by (simp add: js_length_def)
  from has_seed_checks_length
         [of changing_seed_kernel 0 "''viewSeed appears to have returned a standard seed''"]
  show ?thesis unfolding c using g l by simp
qed

text \<open>
  Claim C4 as stated says that what the test accepts is a seed that stays the same over
  repeated queries in one session.  It is not: with the kernel below the test is
  fulfilled at the first query and would be at the second, and the two queries return
  different seeds of 16 bytes.
\<close>

theorem seed_not_compared_counterexample:
  "fst (TestModuleHasSeed changing_seed_kernel 0) =
     Fulfilled ''viewSeed appears to have returned a standard seed'' \<and>
   snd (TestModuleHasSeed changing_seed_kernel 0) = 1 \<and>
   fst (TestModuleHasSeed changing_seed_kernel 1) =
     Fulfilled ''viewSeed appears to have returned a standard seed'' \<and>
   fst (callModule changing_seed_kernel kernelTestSuite ''viewSeed'' [] 0) =
     Fulfilled [(''seed'', JBytes (replicate 16 0))] \<and>
   fst (callModule changing_seed_kernel kernelTestSuite ''viewSeed'' [] 1) =
     Fulfilled [(''seed'', JBytes (replicate 16 1))] \<and>
   JBytes (replicate 16 0) \<noteq> JBytes (replicate 16 1)"
  by (simp add: TestModuleHasSeed_def changing_seed_kernel_def js_in_def js_get_def
        js_length_def)

subsection \<open>TestMissingModule and TestMalformedModule\<close>

text \<open>
  Claim C5, as amended.  Each of the two tests is fulfilled exactly when its call is
  rejected, with the reason of the rejection as its value, and is rejected exactly when
  its call is fulfilled.  The malformed identifier is the identifier of the test module
  without its last character; the missing one has the length of the identifier of the
  test module and differs from it.  The two reasons are not compared.
\<close>

theorem missing_and_malformed_reject:
  "(fst (TestMissingModule K B s) = Fulfilled m \<longleftrightarrow>
      fst (callModule K moduleDoesNotExist ''viewSeed'' [] s) = Rejected m) \<and>
   (fst (TestMalformedModule K s) = Fulfilled m \<longleftrightarrow>
      fst (callModule K moduleMalformed ''viewSeed'' [] s) = Rejected m) \<and>
   ((\<exists>e. fst (TestMissingModule K B s) = Rejected e) \<longleftrightarrow>
      (\<exists>data. fst (callModule K moduleDoesNotExist ''viewSeed'' [] s) = Fulfilled data)) \<and>
   ((\<exists>e. fst (TestMalformedModule K s) = Rejected e) \<longleftrightarrow>
      (\<exists>data. fst (callModule K moduleMalformed ''viewSeed'' [] s) = Fulfilled data)) \<and>
   moduleMalformed = butlast kernelTestSuite \<and>
   length moduleDoesNotExist = length kernelTestSuite \<and>
   moduleDoesNotExist \<noteq> kernelTestSuite"
proof -
  obtain q1 s1 where c1: "callModule K moduleDoesNotExist ''viewSeed'' [] s = (q1, s1)"
    by (cases "callModule K moduleDoesNotExist ''viewSeed'' [] s")
  obtain q2 s2 where c2: "callModule K moduleMalformed ''viewSeed'' [] s = (q2, s2)"
    by (cases "callModule K moduleMalformed ''viewSeed'' [] s")
  have 1: "(fst (TestMissingModule K B s) = Fulfilled m \<longleftrightarrow>
      fst (callModule K moduleDoesNotExist ''viewSeed'' [] s) = Rejected m)"
    "((\<exists>e. fst (TestMissingModule K B s) = Rejected e) \<longleftrightarrow>
      (\<exists>data. fst (callModule K moduleDoesNotExist ''viewSeed'' [] s) = Fulfilled data))"
    by (cases q1; simp add: TestMissingModule_def c1)+
  have 2: "(fst (TestMalformedModule K s) = Fulfilled m \<longleftrightarrow>
      fst (callModule K moduleMalformed ''viewSeed'' [] s) = Rejected m)"
    "((\<exists>e. fst (TestMalformedModule K s) = Rejected e) \<longleftrightarrow>
      (\<exists>data. fst (callModule K moduleMalformed ''viewSeed'' [] s) = Fulfilled data))"
    by (cases q2; simp add: TestMalformedModule_def c2)+
  have 3: "moduleMalformed = butlast kernelTestSuite"
    "length moduleDoesNotExist = length kernelTestSuite"
    "moduleDoesNotExist \<noteq> kernelTestSuite"
    by (simp_all add: moduleMalformed_def kernelTestSuite_def moduleDoesNotExist_def)
  from 1 2 3 show ?thesis by blast
qed

theorem missing_and_malformed_reject_witness:
  "fst (TestMissingModule one_reason_kernel example_browser ()) = Fulfilled ''error'' \<and>
   fst (TestMalformedModule one_reason_kernel ()) = Fulfilled ''error''"
proof -
  have "fst (callModule one_reason_kernel moduleDoesNotExist ''viewSeed'' [] ()) = Rejected ''error''"
    "fst (callModule one_reason_kernel moduleMalformed ''viewSeed'' [] ()) = Rejected ''error''"
    by (simp_all add: one_reason_kernel_def)
  with missing_and_malformed_reject [of one_reason_kernel example_browser "()" "''error''"]
  show ?thesis by blast
qed

text \<open>
  Claim C5 as stated says that the two rejections carry reasons that can be told
  apart.  The tests accept a kernel that rejects both calls with the same reason.
\<close>

theorem reasons_not_compared_counterexample:
  "fst (TestMissingModule one_reason_kernel example_browser ()) = Fulfilled ''error'' \<and>
   fst (TestMalformedModule one_reason_kernel ()) = Fulfilled ''error'' \<and>
   fst (callModule one_reason_kernel moduleDoesNotExist ''viewSeed'' [] ()) = Rejected ''error'' \<and>
   fst (callModule one_reason_kernel moduleMalformed ''viewSeed'' [] ()) = Rejected ''error''"
  by (simp add: TestMissingModule_def TestMalformedModule_def one_reason_kernel_def)

subsection \<open>TestModulePresentSeed\<close>

text \<open>
  Claim C6, as amended.  The test makes one call, \<open>presentSeed\<close> from the page to the
  test module with a seed of sixteen zero bytes.  The rejection of that call is
  recorded as the success of the test, with the text \<open>received expected error: \<close> before
  the reason; its fulfilment is recorded as the failure of the test, with the reason
  \<open>expecting an error for using a forbidden method\<close>; and the test succeeds in no other
  case.  No other seed is sent.
\<close>

theorem present_seed_zero_payload:
  "(\<forall>err. fst (callModule K kernelTestSuite ''presentSeed'' [(''seed'', fakeSeed)] s) = Rejected err
      \<longrightarrow> fst (TestModulePresentSeed K s) = Fulfilled (''received expected error: '' @ err)) \<and>
   (\<forall>data. fst (callModule K kernelTestSuite ''presentSeed'' [(''seed'', fakeSeed)] s) = Fulfilled data
      \<longrightarrow> fst (TestModulePresentSeed K s) =
            Rejected ''expecting an error for using a forbidden method'') \<and>
   ((\<exists>m. fst (TestModulePresentSeed K s) = Fulfilled m) \<longleftrightarrow>
      (\<exists>err. fst (callModule K kernelTestSuite ''presentSeed'' [(''seed'', fakeSeed)] s) =
         Rejected err)) \<and>
   fakeSeed = JBytes (replicate 16 0) \<and>
   snd (TestModulePresentSeed K s) =
     snd (callModule K kernelTestSuite ''presentSeed'' [(''seed'', fakeSeed)] s)"
proof -
  obtain q s' where
    c: "callModule K kernelTestSuite ''presentSeed'' [(''seed'', fakeSeed)] s = (q, s')"
    by (cases "callModule K kernelTestSuite ''presentSeed'' [(''seed'', fakeSeed)] s")
  have 2: "\<forall>err. fst (callModule K kernelTestSuite ''presentSeed'' [(''seed'', fakeSeed)] s) = Rejected err
      \<longrightarrow> fst (TestModulePresentSeed K s) = Fulfilled (''received expected error: '' @ err)"
    by (simp add: TestModulePresentSeed_def c)
  have 3: "\<forall>data. fst (callModule K kernelTestSuite ''presentSeed'' [(''seed'', fakeSeed)] s) = Fulfilled data
      \<longrightarrow> fst (TestModulePresentSeed K s) =
            Rejected ''expecting an error for using a forbidden method''"
    by (simp add: TestModulePresentSeed_def c)
  have 4: "(\<exists>m. fst (TestModulePresentSeed K s) = Fulfilled m) \<longleftrightarrow>
      (\<exists>err. fst (callModule K kernelTestSuite ''presentSeed'' [(''seed'', fakeSeed)] s) =
         Rejected err)"
    by (cases q) (simp_all add: TestModulePresentSeed_def c)
  have 5: "fakeSeed = JBytes (replicate 16 0)" by (simp add: fakeSeed_def)
  have 6: "snd (TestModulePresentSeed K s) =
     snd (callModule K kernelTestSuite ''presentSeed'' [(''seed'', fakeSeed)] s)"
    by (simp add: TestModulePresentSeed_def c)
  from 2 3 4 5 6 show ?thesis by blast
qed

theorem present_seed_zero_payload_witness:
  "fst (TestModulePresentSeed mirror_kernel ()) =
     Fulfilled ''received expected error: forbidden'' \<and>
   fst (TestModulePresentSeed permissive_kernel ()) =
     Rejected ''expecting an error for using a forbidden method''"
proof -
  have "fst (callModule mirror_kernel kernelTestSuite ''presentSeed'' [(''seed'', fakeSeed)] ()) =
          Rejected ''forbidden''"
       "fst (callModule permissive_kernel kernelTestSuite ''presentSeed'' [(''seed'', fakeSeed)] ()) =
          Fulfilled []"
    by (simp_all add: mirror_kernel_def permissive_kernel_def)
  with present_seed_zero_payload [of mirror_kernel "()"]
       present_seed_zero_payload [of permissive_kernel "()"]
  show ?thesis by simp
qed

text \<open>
  Claim C6 as stated says that what the test accepts is a kernel that rejects
  \<open>presentSeed\<close> from the page for every seed.  The test accepts the kernel below, which
  rejects the call for sixteen zero bytes and fulfils it for sixteen bytes of 1.
\<close>

theorem other_seeds_not_sent_counterexample:
  "fst (TestModulePresentSeed zero_seed_kernel ()) =
     Fulfilled ''received expected error: forbidden'' \<and>
   fst (callModule zero_seed_kernel kernelTestSuite ''presentSeed''
          [(''seed'', JBytes (replicate 16 1))] ()) = Fulfilled []"
  by (simp add: TestModulePresentSeed_def zero_seed_kernel_def fakeSeed_def)

subsection \<open>TestSecureUploadAndDownload\<close>

lemma mismatch_from_iff:
  "mismatch_from up down i \<longleftrightarrow> (\<exists>j. i \<le> j \<and> j < length up \<and> js_index up j \<noteq> js_index down j)"
proof (induction up down i rule: mismatch_from.induct)
  case (1 up down i)
  show ?case
  proof (cases "i < length up")
    case False
    then show ?thesis by (subst mismatch_from.simps) auto
  next
    case True
    show ?thesis
    proof (cases "js_index up i \<noteq> js_index down i")
      case differs: True
      with True show ?thesis by (subst mismatch_from.simps) auto
    next
      case same: False
      with True 1 have "mismatch_from up down i \<longleftrightarrow>
          (\<exists>j. Suc i \<le> j \<and> j < length up \<and> js_index up j \<noteq> js_index down j)"
        by (subst mismatch_from.simps) simp
      also have "\<dots> \<longleftrightarrow> (\<exists>j. i \<le> j \<and> j < length up \<and> js_index up j \<noteq> js_index down j)"
        using same by (metis Suc_leD Suc_leI le_neq_implies_less)
      finally show ?thesis .
    qed
  qed
qed

lemma same_bytes_iff:
  "length up = length down \<and> \<not> mismatch_from up down 0 \<longleftrightarrow> down = up"
proof
  assume a: "length up = length down \<and> \<not> mismatch_from up down 0"
  then have "\<forall>j < length up. up ! j = down ! j"
    by (auto simp add: mismatch_from_iff js_index_def)
  with a show "down = up" by (simp add: nth_equalityI)
next
  assume "down = up"
  then show "length up = length down \<and> \<not> mismatch_from up down 0"
    by (simp add: mismatch_from_iff)
qed

lemma check_download_iff:
  "check_download B up skylink down Pending = Fulfilled m \<longleftrightarrow> m = skylink \<and> down = up"
  using same_bytes_iff [of up down] by (auto simp add: check_download_def)

lemma encode_test_data:
  "TextEncoder_encode ''test data'' = [116, 101, 115, 116, 32, 100, 97, 116, 97]"
  by (simp add: TextEncoder_encode_def)

lemma padding_roundtrip:
  "upload padding_kernel ''testUpload.txt'' (TextEncoder_encode ''test data'') [] =
     (Fulfilled ''testUpload.txt'',
      [(''testUpload.txt'', TextEncoder_encode ''test data'')])"
  "download_upload padding_kernel ''testUpload.txt'' (TextEncoder_encode ''test data'') [] =
     Fulfilled (TextEncoder_encode ''test data'')"
  by (simp_all add: download_upload_def padding_kernel_def encode_test_data)

text \<open>
  Claim C7, as amended.  The test uploads one file, the nine bytes of \<open>test data\<close>
  under the name \<open>testUpload.txt\<close>, and is fulfilled, with the locator the upload
  returned, exactly when the download of the upload yields these nine bytes.  The
  comparison it makes accepts, for any two byte sequences, the empty one and those of
  one byte among them, exactly the pairs that agree in length and at every index.
\<close>

theorem upload_download_fixed_file:
  "(fst (TestSecureUploadAndDownload K B s) = Fulfilled m \<longleftrightarrow>
      fst (upload K ''testUpload.txt'' (TextEncoder_encode ''test data'') s) = Fulfilled m \<and>
      download_upload K ''testUpload.txt'' (TextEncoder_encode ''test data'') s =
        Fulfilled (TextEncoder_encode ''test data'')) \<and>
   (check_download B up skylink down Pending = Fulfilled skylink \<longleftrightarrow>
      length down = length up \<and> (\<forall>i < length up. down ! i = up ! i)) \<and>
   length (TextEncoder_encode ''test data'') = 9"
proof -
  obtain q s1 where u: "upload K ''testUpload.txt'' (TextEncoder_encode ''test data'') s = (q, s1)"
    by (cases "upload K ''testUpload.txt'' (TextEncoder_encode ''test data'') s")
  have 1: "fst (TestSecureUploadAndDownload K B s) = Fulfilled m \<longleftrightarrow>
      fst (upload K ''testUpload.txt'' (TextEncoder_encode ''test data'') s) = Fulfilled m \<and>
      download_upload K ''testUpload.txt'' (TextEncoder_encode ''test data'') s =
        Fulfilled (TextEncoder_encode ''test data'')"
  proof (cases q)
    case Pending
    then show ?thesis by (simp add: TestSecureUploadAndDownload_def u download_upload_def)
  next
    case (Rejected err)
    then show ?thesis by (simp add: TestSecureUploadAndDownload_def u download_upload_def)
  next
    case (Fulfilled skylink)
    obtain q2 s2 where d: "download K skylink s1 = (q2, s2)"
      by (cases "download K skylink s1")
    show ?thesis
      by (cases q2)
         (auto simp add: TestSecureUploadAndDownload_def u d Fulfilled download_upload_def
            check_download_iff)
  qed
  have 2: "check_download B up skylink down Pending = Fulfilled skylink \<longleftrightarrow>
      length down = length up \<and> (\<forall>i < length up. down ! i = up ! i)"
    by (auto simp add: check_download_iff nth_equalityI)
  have 3: "length (TextEncoder_encode ''test data'') = 9"
    by (simp add: TextEncoder_encode_def)
  from 1 2 3 show ?thesis by blast
qed

theorem upload_download_fixed_file_witness:
  "fst (TestSecureUploadAndDownload padding_kernel example_browser []) =
     Fulfilled ''testUpload.txt'' \<and>
   check_download example_browser [] ''link'' [] Pending = Fulfilled ''link'' \<and>
   check_download example_browser [7] ''link'' [7] Pending = Fulfilled ''link'' \<and>
   check_download example_browser [7] ''link'' [8] Pending \<noteq> Fulfilled ''link''"
proof -
  have 1: "fst (TestSecureUploadAndDownload padding_kernel example_browser []) =
     Fulfilled ''testUpload.txt''"
    using upload_download_fixed_file
            [of padding_kernel example_browser "[]" "''testUpload.txt''"]
    by (simp add: padding_roundtrip)
  have 2: "check_download example_browser [] ''link'' [] Pending = Fulfilled ''link''"
    using upload_download_fixed_file [of padding_kernel example_browser "[]" _ "[]" "''link''" "[]"]
    by simp
  have 3: "check_download example_browser [7] ''link'' [7] Pending = Fulfilled ''link''"
    using upload_download_fixed_file [of padding_kernel example_browser "[]" _ "[7]" "''link''" "[7]"]
    by simp
  have 4: "check_download example_browser [7] ''link'' [8] Pending \<noteq> Fulfilled ''link''"
    using upload_download_fixed_file [of padding_kernel example_browser "[]" _ "[7]" "''link''" "[8]"]
    by simp
  from 1 2 3 4 show ?thesis by blast
qed

text \<open>
  Claim C7 as stated says that what the test accepts is a round trip that holds for
  every file name and every byte sequence, the empty one included.  The test accepts
  the kernel below, which returns one zero byte for an empty file.
\<close>

theorem other_files_not_checked_counterexample:
  "fst (TestSecureUploadAndDownload padding_kernel example_browser []) =
     Fulfilled ''testUpload.txt'' \<and>
   download_upload padding_kernel ''f.txt'' [] [] = Fulfilled [0] \<and>
   length [0 :: 8 word] \<noteq> length ([] :: 8 word list)"
proof -
  have "check_download example_browser (TextEncoder_encode ''test data'') ''testUpload.txt''
          (TextEncoder_encode ''test data'') Pending = Fulfilled ''testUpload.txt''"
    by (simp add: check_download_iff)
  then show ?thesis
    by (simp add: TestSecureUploadAndDownload_def padding_kernel_def download_upload_def
          encode_test_data)
qed

subsection \<open>TestMirrorDomain\<close>

text \<open>
  Claim C8, as amended.  The test makes one call, \<open>mirrorDomain\<close>, from the page to the
  test module, and is fulfilled exactly when the response has a field \<open>domain\<close> that is
  the string \<open>window.location.hostname\<close> of the page.  No call relayed through another
  module is made.
\<close>

theorem mirror_domain_is_hostname:
  "(fst (TestMirrorDomain K B s) = Fulfilled m \<longleftrightarrow>
      m = ''got expected domain: '' @ hostname B \<and>
      (\<exists>data. fst (callModule K kernelTestSuite ''mirrorDomain'' [] s) = Fulfilled data \<and>
         js_in ''domain'' data \<and> js_get data ''domain'' = JStr (hostname B))) \<and>
   snd (TestMirrorDomain K B s) = snd (callModule K kernelTestSuite ''mirrorDomain'' [] s)"
proof -
  obtain q s' where c: "callModule K kernelTestSuite ''mirrorDomain'' [] s = (q, s')"
    by (cases "callModule K kernelTestSuite ''mirrorDomain'' [] s")
  show ?thesis
    by (cases q) (auto simp add: TestMirrorDomain_def c js_typeof_def js_string_def)
qed

theorem mirror_domain_is_hostname_witness:
  "fst (TestMirrorDomain mirror_kernel example_browser ()) =
     Fulfilled ''got expected domain: example.com''"
proof -
  have "fst (callModule mirror_kernel kernelTestSuite ''mirrorDomain'' [] ()) =
          Fulfilled [(''domain'', JStr ''example.com'')]"
    "js_in ''domain'' [(''domain'', JStr ''example.com'')]"
    "js_get [(''domain'', JStr ''example.com'')] ''domain'' = JStr (hostname example_browser)"
    "''got expected domain: '' @ hostname example_browser = ''got expected domain: example.com''"
    by (simp_all add: mirror_kernel_def example_browser_def js_in_def js_get_def)
  with mirror_domain_is_hostname [of mirror_kernel example_browser "()"
         "''got expected domain: example.com''"]
  show ?thesis by simp
qed

text \<open>
  Claim C8 as stated says that what the test accepts is a domain that is the origin of
  the page and that stays the same when the call is relayed through one more module.
  A kernel that reports the origin of the page, the host name with its scheme, is
  rejected by the test, and the kernel the test accepts reports the host name, which
  is not the origin.  The only relayed call in the source, \<open>testerMirrorDomain\<close>, is in
  a test that is commented out, and that test expects the identifier of the relaying
  module: the live test accepts a kernel whose answer to the relayed call is that
  identifier and not the host name of the page.
\<close>

theorem origin_and_relay_counterexample:
  "location_origin ''https:'' example_browser = ''https://example.com'' \<and>
   fst (callModule origin_kernel kernelTestSuite ''mirrorDomain'' [] ()) =
     Fulfilled [(''domain'', JStr (location_origin ''https:'' example_browser))] \<and>
   fst (TestMirrorDomain origin_kernel example_browser ()) =
     Rejected (''wrong domain'' @ [CHR 0x0A] @ ''expected: example.com'' @ [CHR 0x0A] @
               ''got: https://example.com'') \<and>
   fst (TestMirrorDomain mirror_kernel example_browser ()) =
     Fulfilled ''got expected domain: example.com'' \<and>
   fst (callModule mirror_kernel kernelTestSuite ''mirrorDomain'' [] ()) =
     Fulfilled [(''domain'', JStr (hostname example_browser))] \<and>
   hostname example_browser \<noteq> location_origin ''https:'' example_browser \<and>
   fst (callModule mirror_kernel kernelTestSuite ''testerMirrorDomain'' [] ()) =
     Fulfilled [(''domain'', JStr kernelTestSuite)] \<and>
   JStr kernelTestSuite \<noteq> JStr (hostname example_browser)"
  by (simp add: TestMirrorDomain_def mirror_kernel_def origin_kernel_def example_browser_def
        location_origin_def js_in_def js_get_def js_typeof_def js_string_def kernelTestSuite_def)

subsection \<open>Sequential test messages\<close>

lemma after_messages_0 [simp]: "after_messages K 0 s = s"
  by (simp add: after_messages_def)

lemma after_messages_Suc:
  "after_messages K (Suc n) s = after_messages K n (snd (testMessage K s))"
  by (simp only: after_messages_def funpow_Suc_right o_apply)

lemma send_all_fulfilled:
  "(\<And>i. i < n \<Longrightarrow> \<exists>x. fst (testMessage K (after_messages K i s)) = Fulfilled x) \<Longrightarrow>
   sendSequentialMessages K n (s, Pending) =
     (after_messages K n s, Fulfilled ''all messages resolved'')"
proof (induction n arbitrary: s)
  case 0
  then show ?case by simp
next
  case (Suc n)
  from Suc.prems [of 0] obtain x where x: "fst (testMessage K s) = Fulfilled x"
    by auto
  have rest: "\<exists>x. fst (testMessage K (after_messages K i (snd (testMessage K s)))) = Fulfilled x"
    if "i < n" for i
    using Suc.prems [of "Suc i"] that by (simp add: after_messages_Suc)
  have "sendSequentialMessages K (Suc n) (s, Pending) =
        sendSequentialMessages K n (snd (testMessage K s), Pending)"
    using x by (cases "testMessage K s") simp
  also have "\<dots> = (after_messages K n (snd (testMessage K s)), Fulfilled ''all messages resolved'')"
    using rest by (rule Suc.IH)
  finally show ?case by (simp add: after_messages_Suc)
qed

text \<open>
  The first message that does not settle as fulfilled ends the recursion: rejected, it
  rejects the test; pending, it leaves the test pending.  No message is sent after it.
\<close>

lemma send_first_unfulfilled:
  "i < n \<Longrightarrow>
   (\<And>j. j < i \<Longrightarrow> \<exists>x. fst (testMessage K (after_messages K j s)) = Fulfilled x) \<Longrightarrow>
   fst (testMessage K (after_messages K i s)) = q \<Longrightarrow> q = Pending \<or> q = Rejected e \<Longrightarrow>
   sendSequentialMessages K n (s, Pending) = (after_messages K (Suc i) s, q)"
proof (induction n arbitrary: s i)
  case 0
  then show ?case by simp
next
  case (Suc n)
  show ?case
  proof (cases i)
    case 0
    with Suc.prems(3) have "fst (testMessage K s) = q" by simp
    then show ?thesis using 0 Suc.prems(4)
      by (cases "testMessage K s") (auto simp add: after_messages_Suc)
  next
    case (Suc i')
    from Suc.prems(2) [of 0] Suc obtain x where x: "fst (testMessage K s) = Fulfilled x"
      by auto
    have rest: "\<exists>x. fst (testMessage K (after_messages K j (snd (testMessage K s)))) = Fulfilled x"
      if "j < i'" for j
      using Suc.prems(2) [of "Suc j"] that Suc by (simp add: after_messages_Suc)
    have unf: "fst (testMessage K (after_messages K i' (snd (testMessage K s)))) = q"
      using Suc.prems(3) Suc by (simp add: after_messages_Suc)
    have "sendSequentialMessages K (Suc n) (s, Pending) =
          sendSequentialMessages K n (snd (testMessage K s), Pending)"
      using x by (cases "testMessage K s") simp
    also have "\<dots> = (after_messages K (Suc i') (snd (testMessage K s)), q)"
      using Suc.prems(1) Suc.prems(4) Suc rest unf by (intro Suc.IH) auto
    finally show ?thesis using Suc by (simp add: after_messages_Suc)
  qed
qed

lemma after_messages_logging:
  "after_messages (logging_kernel special reply) n log = log @ [length log ..< length log + n]"
proof (induction n arbitrary: log)
  case 0
  then show ?case by simp
next
  case (Suc n)
  have "after_messages (logging_kernel special reply) (Suc n) log =
        after_messages (logging_kernel special reply) n (log @ [length log])"
    by (simp add: after_messages_Suc logging_kernel_def)
  also have "\<dots> = (log @ [length log]) @ [Suc (length log) ..< Suc (length log) + n]"
    by (simp add: Suc.IH)
  also have "\<dots> = log @ [length log ..< length log + Suc n]"
    by (simp add: upt_conv_Cons)
  finally show ?case .
qed

lemma testMessage_logging:
  "fst (testMessage (logging_kernel special reply) log) =
     (if length log = special then reply else Fulfilled ''ok'')"
  by (simp add: logging_kernel_def)

text \<open>
  Claim C9.  When each of the 5000 test messages, sent in the session state its
  predecessor left, is fulfilled, the test is fulfilled with \<open>all messages resolved\<close>
  and the session is the one after exactly 5000 messages, one after the other.  A
  message is sent only after the one before has settled: when the first \<open>i\<close> messages
  are fulfilled and the next one never settles, the test stays pending and the session
  has seen \<open>i + 1\<close> messages and no more.
\<close>

theorem sequential_5k_resolves:
  "((\<forall>i<5000. \<exists>x. fst (testMessage K (after_messages K i s)) = Fulfilled x) \<longrightarrow>
      TestMsgSpeedSequential5k K s =
        (Fulfilled ''all messages resolved'', after_messages K 5000 s)) \<and>
   (\<forall>i<5000.
      (\<forall>j<i. \<exists>x. fst (testMessage K (after_messages K j s)) = Fulfilled x) \<and>
      fst (testMessage K (after_messages K i s)) = Pending \<longrightarrow>
      TestMsgSpeedSequential5k K s = (Pending, after_messages K (Suc i) s))"
proof (intro conjI impI allI)
  assume "\<forall>i<5000. \<exists>x. fst (testMessage K (after_messages K i s)) = Fulfilled x"
  then have "sendSequentialMessages K 5000 (s, Pending) =
          (after_messages K 5000 s, Fulfilled ''all messages resolved'')"
    by (intro send_all_fulfilled) simp
  then show "TestMsgSpeedSequential5k K s =
        (Fulfilled ''all messages resolved'', after_messages K 5000 s)"
    by (simp add: TestMsgSpeedSequential5k_def)
next
  fix i :: nat
  assume i: "i < 5000"
    and "(\<forall>j<i. \<exists>x. fst (testMessage K (after_messages K j s)) = Fulfilled x) \<and>
      fst (testMessage K (after_messages K i s)) = Pending"
  then have "sendSequentialMessages K 5000 (s, Pending) = (after_messages K (Suc i) s, Pending)"
    by (intro send_first_unfulfilled) auto
  then show "TestMsgSpeedSequential5k K s = (Pending, after_messages K (Suc i) s)"
    by (simp add: TestMsgSpeedSequential5k_def)
qed

theorem sequential_5k_resolves_witness:
  "TestMsgSpeedSequential5k (logging_kernel 5000 Pending) [] =
     (Fulfilled ''all messages resolved'', [0..<5000]) \<and>
   TestMsgSpeedSequential5k (logging_kernel 2 Pending) [] = (Pending, [0, 1, 2])"
proof
  have "\<forall>i<5000. \<exists>x. fst (testMessage (logging_kernel 5000 Pending)
           (after_messages (logging_kernel 5000 Pending) i [])) = Fulfilled x"
    by (simp add: after_messages_logging testMessage_logging)
  with sequential_5k_resolves [of "logging_kernel 5000 Pending" "[]"]
  show "TestMsgSpeedSequential5k (logging_kernel 5000 Pending) [] =
     (Fulfilled ''all messages resolved'', [0..<5000])"
    by (simp add: after_messages_logging)
next
  have a: "\<forall>j<2. \<exists>x. fst (testMessage (logging_kernel 2 Pending)
           (after_messages (logging_kernel 2 Pending) j [])) = Fulfilled x"
    by (simp add: after_messages_logging testMessage_logging)
  have b: "fst (testMessage (logging_kernel 2 Pending)
             (after_messages (logging_kernel 2 Pending) 2 [])) = Pending"
    by (simp add: after_messages_logging testMessage_logging)
  have c: "[0..<3] = [0, 1, 2::nat]" by (simp add: upt_conv_Cons)
  have d: "(2::nat) < 5000" by simp
  from sequential_5k_resolves [of "logging_kernel 2 Pending" "[]"] a b d
  have "TestMsgSpeedSequential5k (logging_kernel 2 Pending) [] =
          (Pending, after_messages (logging_kernel 2 Pending) (Suc 2) [])"
    by blast
  then show "TestMsgSpeedSequential5k (logging_kernel 2 Pending) [] = (Pending, [0, 1, 2])"
    using c by (simp add: after_messages_logging)
qed

text \<open>
  Claim C10.  When the first \<open>i - 1\<close> test messages are fulfilled and message number \<open>i\<close>
  is rejected with \<open>e\<close>, for any \<open>i\<close> from 1 to 5000, the test is rejected with \<open>e\<close> and
  the session is the one after \<open>i\<close> messages: none of the other \<open>5000 - i\<close> is sent.
\<close>

theorem sequential_5k_first_rejection:
  assumes "1 \<le> i" and "i \<le> 5000"
    and "\<forall>j<i - 1. \<exists>x. fst (testMessage K (after_messages K j s)) = Fulfilled x"
    and "fst (testMessage K (after_messages K (i - 1) s)) = Rejected e"
  shows "TestMsgSpeedSequential5k K s = (Rejected e, after_messages K i s)"
proof -
  have "sendSequentialMessages K 5000 (s, Pending) =
          (after_messages K (Suc (i - 1)) s, Rejected e)"
    using assms by (intro send_first_unfulfilled) auto
  then show ?thesis using assms(1) by (simp add: TestMsgSpeedSequential5k_def)
qed

theorem sequential_5k_first_rejection_witness:
  "TestMsgSpeedSequential5k (logging_kernel 2 (Rejected ''kernel error'')) [] =
     (Rejected ''kernel error'', [0, 1, 2])"
proof -
  have a: "\<forall>j<3 - 1. \<exists>x. fst (testMessage (logging_kernel 2 (Rejected ''kernel error''))
           (after_messages (logging_kernel 2 (Rejected ''kernel error'')) j [])) = Fulfilled x"
    by (simp add: after_messages_logging testMessage_logging)
  have b: "fst (testMessage (logging_kernel 2 (Rejected ''kernel error''))
             (after_messages (logging_kernel 2 (Rejected ''kernel error'')) (3 - 1) [])) =
           Rejected ''kernel error''"
    by (simp add: after_messages_logging testMessage_logging)
  have "[0..<3] = [0, 1, 2::nat]" by (simp add: upt_conv_Cons)
  with sequential_5k_first_rejection [of 3, OF _ _ a b] show ?thesis
    by (simp add: after_messages_logging)
qed

end
